theory Spec2Isabelle
  imports Complex_Main "HOL-Library.Word" "HOL-Library.Char_ord" "HOL-Library.List_Lexorder"
    "HOL-Library.Product_Lexorder" "HOL-Library.Multiset"
begin

section \<open>Python values used by the client\<close>

text \<open>
  Python floats are modelled by the real numbers they denote (rounding is left out), with
  the three non-finite values \<open>float()\<close> can return kept apart.  Strings are lists of
  characters.
\<close>

datatype pyfloat = Finite real | PosInf | NegInf | NaN

text \<open>
  \<open>int(x)\<close> of a float truncates toward zero.
\<close>

definition py_int_of_float :: "real \<Rightarrow> int" where
  "py_int_of_float x = (if 0 \<le> x then \<lfloor>x\<rfloor> else \<lceil>x\<rceil>)"

text \<open>
  The conversion of an int to a float, as \<open>float(i)\<close> and as the int operand of
  \<open>i - x\<close> with a float \<open>x\<close> make it.  An int that rounds to \<open>2 ** 1024\<close> or beyond has no
  float: Python raises \<open>OverflowError: int too large to convert to float\<close>, which is \<open>None\<close>
  here.  The largest float is \<open>2 ** 1024 - 2 ** 971\<close>, and rounding is to nearest, so the
  first int without a float is \<open>2 ** 1024 - 2 ** 970\<close>.
\<close>

definition FLOAT_INT_LIMIT :: int where
  "FLOAT_INT_LIMIT = 2 ^ 1024 - 2 ^ 970"

definition py_float_of_int :: "int \<Rightarrow> real option" where
  "py_float_of_int i = (if \<bar>i\<bar> < FLOAT_INT_LIMIT then Some (real_of_int i) else None)"

text \<open>
  \<open>min(max(0.0, secs), hi)\<close> for a positive bound \<open>hi\<close>.  Python's \<open>max(a, b)\<close> keeps
  \<open>a\<close> unless \<open>b > a\<close>, and \<open>min(a, b)\<close> keeps \<open>a\<close> unless \<open>b < a\<close>; every comparison
  with nan is false, so \<open>max(0.0, nan)\<close> is \<open>0.0\<close>.
\<close>

fun clamp_secs :: "pyfloat \<Rightarrow> real \<Rightarrow> real" where
  "clamp_secs (Finite x) hi = min (max 0 x) hi"
| "clamp_secs PosInf hi = hi"
| "clamp_secs NegInf hi = min 0 hi"
| "clamp_secs NaN hi = min 0 hi"

text \<open>
  \<open>str.strip()\<close> and \<open>str.upper()\<close> on ASCII text: the white space characters below
  U+0080 are the ones \<open>str.isspace\<close> accepts there.
\<close>

definition is_space :: "char \<Rightarrow> bool" where
  "is_space c = (let n = (of_char c :: nat) in (9 \<le> n \<and> n \<le> 13) \<or> (28 \<le> n \<and> n \<le> 32))"

definition strip :: "string \<Rightarrow> string" where
  "strip s = rev (dropWhile is_space (rev (dropWhile is_space s)))"

definition upper_char :: "char \<Rightarrow> char" where
  "upper_char c = (let n = (of_char c :: nat) in if 97 \<le> n \<and> n \<le> 122 then char_of (n - 32) else c)"

definition upper :: "string \<Rightarrow> string" where
  "upper s = map upper_char s"

text \<open>
  The interpreter's \<open>float(str)\<close> and \<open>int(str)\<close> are parameters of the model: each gives
  the value a string denotes, or \<open>None\<close> where Python raises \<open>ValueError\<close>.  Every theorem
  below holds whatever these two functions are.
\<close>

record runtime =
  py_float :: "string \<Rightarrow> pyfloat option"
  py_int :: "string \<Rightarrow> int option"

text \<open>
  A concrete runtime for plain decimal text: an optional sign and ASCII digits for
  \<open>int\<close>, the same with an optional fraction for \<open>float\<close>.  Python agrees with it on
  these strings.
\<close>

definition is_digit :: "char \<Rightarrow> bool" where
  "is_digit c = (let n = (of_char c :: nat) in 48 \<le> n \<and> n \<le> 57)"

definition digit_val :: "char \<Rightarrow> nat" where
  "digit_val c = of_char c - 48"

definition digits_val :: "string \<Rightarrow> nat" where
  "digits_val s = foldl (\<lambda>acc c. 10 * acc + digit_val c) 0 s"

definition dec_nat :: "string \<Rightarrow> nat option" where
  "dec_nat s = (if s \<noteq> [] \<and> list_all is_digit s then Some (digits_val s) else None)"

definition dec_int :: "string \<Rightarrow> int option" where
  "dec_int s0 =
     (let s = strip s0 in
      case s of
        [] \<Rightarrow> None
      | c # cs \<Rightarrow>
          if c = CHR ''-'' then map_option (\<lambda>n. - int n) (dec_nat cs)
          else if c = CHR ''+'' then map_option int (dec_nat cs)
          else map_option int (dec_nat s))"

definition dec_unsigned :: "string \<Rightarrow> real option" where
  "dec_unsigned s =
     (let ip = takeWhile is_digit s; rest = dropWhile is_digit s in
      case rest of
        [] \<Rightarrow> map_option real (dec_nat ip)
      | d # fp \<Rightarrow>
          if d = CHR ''.'' \<and> list_all is_digit fp \<and> (ip \<noteq> [] \<or> fp \<noteq> [])
          then Some (real (digits_val ip) + real (digits_val fp) / 10 ^ length fp)
          else None)"

definition dec_float :: "string \<Rightarrow> pyfloat option" where
  "dec_float s0 =
     (let s = strip s0 in
      case s of
        [] \<Rightarrow> None
      | c # cs \<Rightarrow>
          if c = CHR ''-'' then map_option (\<lambda>x. Finite (- x)) (dec_unsigned cs)
          else if c = CHR ''+'' then map_option Finite (dec_unsigned cs)
          else map_option Finite (dec_unsigned s))"

definition decimal_runtime :: runtime where
  "decimal_runtime = \<lparr>py_float = dec_float, py_int = dec_int\<rparr>"

section \<open>The Alpaca client (providers/alpaca.py)\<close>

subsection \<open>Constants\<close>

definition MAX_RETRIES_PER_REQUEST :: nat where
  "MAX_RETRIES_PER_REQUEST = 5"

definition MAX_SLEEP_SECONDS :: real where
  "MAX_SLEEP_SECONDS = 5"

definition BACKOFF_BASE_SECONDS :: "real list" where
  "BACKOFF_BASE_SECONDS = [1 / 2, 1, 2, 4]"

definition SAFETY_BUFFER_SECONDS :: real where
  "SAFETY_BUFFER_SECONDS = 1 / 4"

definition MAX_PROACTIVE_SLEEP_SECONDS :: real where
  "MAX_PROACTIVE_SLEEP_SECONDS = 10"

subsection \<open>Requests, responses and the world outside\<close>

text \<open>
  A page payload is the JSON object of a 200 response: \<open>page_bars\<close> is the object under
  \<open>"bars"\<close> in the order \<open>items()\<close> yields it (empty when the key is absent, as
  \<open>data.get("bars", {})\<close> gives); the currency and the next page token are \<open>None\<close> when
  the key is absent or null.  A bar is any value \<open>'b\<close>.
\<close>

record 'b payload =
  page_bars :: "(string \<times> 'b list) list"
  page_currency :: "string option"
  next_page_token :: "string option"

text \<open>
  Response headers are looked up by lower-case name, as the source does.  \<open>json\<close> is what
  \<open>response.json()\<close> gives: the payload, or the decoder's message when the body is not
  JSON.
\<close>

record 'b response =
  status_code :: int
  headers :: "(string \<times> string) list"
  body :: string
  json :: "string + 'b payload"

definition header_get :: "'b response \<Rightarrow> string \<Rightarrow> string option" where
  "header_get response name = map_of (headers response) name"

record request =
  url :: string
  params :: "(string \<times> string) list"
  auth :: "(string \<times> string) list"

text \<open>
  The world the client acts on: the responses the server will give to the next requests,
  in order; the injected clock; the log of sleeps; the log of requests sent.  The clock is
  an oracle whose reading may change with every request and every sleep (between two
  readings of the source there is always one of the two).
\<close>

record 'b world =
  script :: "'b response list"
  clock :: "nat \<Rightarrow> real"
  sleeps :: "real list"
  requests :: "request list"

definition now :: "'b world \<Rightarrow> real" where
  "now w = clock w (length (requests w) + length (sleeps w))"

definition sleep :: "'b world \<Rightarrow> real \<Rightarrow> 'b world" where
  "sleep w secs = w\<lparr>sleeps := sleeps w @ [secs]\<rparr>"

text \<open>
  \<open>http_client.get\<close>: the request is logged and the next scripted response returned.
  \<open>None\<close> stands for a script with no response left, which is where a run of the model
  stops short of the source's.
\<close>

definition http_get :: "'b world \<Rightarrow> request \<Rightarrow> ('b world \<times> 'b response) option" where
  "http_get w req =
     (case script w of
        [] \<Rightarrow> None
      | r # rs \<Rightarrow> Some (w\<lparr>script := rs, requests := requests w @ [req]\<rparr>, r))"

subsection \<open>Errors\<close>

text \<open>
  The exceptions that leave the client: the two its docstring names, and the
  \<open>OverflowError\<close> of a conversion to float.
\<close>

datatype error = ValueError string | ProviderError string "int option" | OverflowError string

subsection \<open>Rate-limit policy\<close>

text \<open>\<open>_parse_rate_limit_headers\<close>: (limit, remaining, reset), each \<open>None\<close> if missing or unparsable.\<close>

definition parse_header_int :: "runtime \<Rightarrow> 'b response \<Rightarrow> string \<Rightarrow> int option" where
  "parse_header_int rt response name =
     (case header_get response name of
        None \<Rightarrow> None
      | Some raw \<Rightarrow> py_int rt (strip raw))"

definition parse_rate_limit_headers ::
  "runtime \<Rightarrow> 'b response \<Rightarrow> int option \<times> int option \<times> int option" where
  "parse_rate_limit_headers rt response =
     (parse_header_int rt response ''x-ratelimit-limit'',
      parse_header_int rt response ''x-ratelimit-remaining'',
      parse_header_int rt response ''x-ratelimit-reset'')"

text \<open>
  \<open>_compute_sleep_seconds_for_429\<close>.  \<open>t\<close> is the reading \<open>self._now()\<close> gives at this
  call (the source reads the clock in the second branch only).  A header on which
  \<open>float()\<close> or \<open>int()\<close> raises \<open>ValueError\<close> falls through to the next branch.  In the
  second branch \<open>float(wait)\<close> raises \<open>OverflowError\<close> for a difference that has no float;
  the \<open>except (ValueError, TypeError)\<close> around it does not catch that, and the exception
  leaves the function (\<open>Inl\<close>).
\<close>

definition parse_header_float :: "runtime \<Rightarrow> 'b response \<Rightarrow> string \<Rightarrow> pyfloat option" where
  "parse_header_float rt response name =
     (case header_get response name of
        None \<Rightarrow> None
      | Some raw \<Rightarrow> py_float rt (strip raw))"

definition compute_sleep_seconds_for_429 ::
  "runtime \<Rightarrow> real \<Rightarrow> 'b response \<Rightarrow> nat \<Rightarrow> error + real \<times> string" where
  "compute_sleep_seconds_for_429 rt t response attempt_index =
     (case parse_header_float rt response ''retry-after'' of
        Some secs \<Rightarrow> Inr (clamp_secs secs MAX_SLEEP_SECONDS, ''Retry-After'')
      | None \<Rightarrow>
          (case parse_header_int rt response ''x-ratelimit-reset'' of
             Some reset_ts \<Rightarrow>
               (let now_ts = py_int_of_float t;
                    wait = reset_ts - now_ts
                in case py_float_of_int wait of
                     None \<Rightarrow> Inl (OverflowError ''int too large to convert to float'')
                   | Some x \<Rightarrow> Inr (clamp_secs (Finite x) MAX_SLEEP_SECONDS, ''X-RateLimit-Reset''))
           | None \<Rightarrow>
               if attempt_index < length BACKOFF_BASE_SECONDS
               then Inr (min (BACKOFF_BASE_SECONDS ! attempt_index) MAX_SLEEP_SECONDS, ''backoff'')
               else Inr (MAX_SLEEP_SECONDS, ''backoff'')))"

subsection \<open>Results\<close>

record 'b BarsResponse =
  br_bars :: "string \<rightharpoonup> 'b list"
  br_currency :: "string option"

text \<open>\<open>str(n)\<close> for an integer, as the f-strings of the error messages print it.\<close>

function str_nat :: "nat \<Rightarrow> string" where
  "str_nat n = (if n < 10 then [char_of (48 + n)] else str_nat (n div 10) @ [char_of (48 + n mod 10)])"
  by pat_completeness auto
termination
  by (relation "measure id") auto

declare str_nat.simps [simp del]

definition str_int :: "int \<Rightarrow> string" where
  "str_int i = (if i < 0 then CHR ''-'' # str_nat (nat (- i)) else str_nat (nat i))"

text \<open>\<open>sep.join(parts)\<close>.\<close>

fun join :: "string \<Rightarrow> string list \<Rightarrow> string" where
  "join sep [] = []"
| "join sep [x] = x"
| "join sep (x # y # ys) = x @ sep @ join sep (y # ys)"

subsection \<open>fetch_stock_bars\<close>

text \<open>The client object after \<open>__init__\<close>, and the arguments of one call.  Dates are taken
  in their serialized form (\<open>_serialize_date\<close> returns a string argument as it is).\<close>

record client =
  api_key :: string
  api_secret :: string
  base_url :: string

record bars_query =
  q_symbols :: "string list"
  q_timeframe :: string
  q_start :: string
  q_end :: string
  q_limit :: int
  q_adjustment :: string
  q_feed :: "string option"
  q_asof :: "string option"
  q_sort :: string

definition build_auth_headers :: "client \<Rightarrow> (string \<times> string) list" where
  "build_auth_headers c = [(''APCA-API-KEY-ID'', api_key c), (''APCA-API-SECRET-KEY'', api_secret c)]"

definition normalize_symbols :: "string list \<Rightarrow> string list" where
  "normalize_symbols symbols = map (\<lambda>s. strip (upper s)) (filter (\<lambda>s. strip s \<noteq> []) symbols)"

definition build_params :: "bars_query \<Rightarrow> string list \<Rightarrow> (string \<times> string) list" where
  "build_params q normalized_symbols =
     [(''symbols'', join '','' normalized_symbols),
      (''timeframe'', q_timeframe q),
      (''start'', q_start q),
      (''end'', q_end q),
      (''limit'', str_int (q_limit q)),
      (''adjustment'', q_adjustment q),
      (''sort'', q_sort q)]
     @ (case q_feed q of None \<Rightarrow> [] | Some f \<Rightarrow> [(''feed'', f)])
     @ (case q_asof q of None \<Rightarrow> [] | Some a \<Rightarrow> [(''asof'', a)])"

text \<open>\<open>current_params\<close>: the base parameters, with the page token from the second page on.\<close>

definition with_page_token :: "request \<Rightarrow> string option \<Rightarrow> request" where
  "with_page_token base page_token =
     (case page_token of
        None \<Rightarrow> base
      | Some t \<Rightarrow> base\<lparr>params := params base @ [(''page_token'', t)]\<rparr>)"

text \<open>
  The proactive gate at the head of the pagination loop: with a remaining quota of at most
  one and a known reset time, wait until the reset plus the safety buffer, at most
  \<open>MAX_PROACTIVE_SLEEP_SECONDS\<close>; the sleeper is called only for a positive wait.  In
  \<open>last_reset - self._now()\<close> the int \<open>last_reset\<close> is converted to a float; for a reset that
  has none the subtraction raises \<open>OverflowError\<close>, which nothing in \<open>fetch_stock_bars\<close>
  catches (\<open>Inl\<close>).
\<close>

definition proactive_gate :: "'b world \<Rightarrow> int option \<Rightarrow> int option \<Rightarrow> error + 'b world" where
  "proactive_gate w last_remaining last_reset =
     (case last_remaining of
        None \<Rightarrow> Inr w
      | Some remaining \<Rightarrow>
          (case last_reset of
             None \<Rightarrow> Inr w
           | Some reset \<Rightarrow>
               if remaining \<le> 1
               then (case py_float_of_int reset of
                       None \<Rightarrow> Inl (OverflowError ''int too large to convert to float'')
                     | Some reset_secs \<Rightarrow>
                         (let wait_secs = reset_secs - now w + SAFETY_BUFFER_SECONDS;
                              wait_secs = max 0 (min wait_secs MAX_PROACTIVE_SLEEP_SECONDS)
                          in if wait_secs > 0 then Inr (sleep w wait_secs) else Inr w))
               else Inr w))"

text \<open>
  The inner loop \<open>while response.status_code == 429 and retries_used < MAX_RETRIES_PER_REQUEST\<close>:
  compute the delay from this 429 response, sleep, send the same request again.  The loop
  ends with a response, or with the exception the delay computation raised.
\<close>

function retry_while_429 ::
  "runtime \<Rightarrow> request \<Rightarrow> 'b world \<Rightarrow> 'b response \<Rightarrow> nat
     \<Rightarrow> ('b world \<times> (error + 'b response)) option" where
  "retry_while_429 rt req w response retries_used =
     (if status_code response = 429 \<and> retries_used < MAX_RETRIES_PER_REQUEST
      then (case compute_sleep_seconds_for_429 rt (now w) response retries_used of
              Inl e \<Rightarrow> Some (w, Inl e)
            | Inr (sleep_secs, strategy) \<Rightarrow>
                (let w1 = sleep w sleep_secs
                 in case http_get w1 req of
                      None \<Rightarrow> None
                    | Some (w2, response') \<Rightarrow> retry_while_429 rt req w2 response' (retries_used + 1)))
      else Some (w, Inr response))"
  by pat_completeness auto
termination
  by (relation "measure (\<lambda>(rt, req, w, response, retries_used). MAX_RETRIES_PER_REQUEST - retries_used)")
     auto

declare retry_while_429.simps [simp del]

text \<open>The rate state carried to the next page: a header that is missing or unparsable
  leaves the carried value as it was.\<close>

definition update_rate_state ::
  "runtime \<Rightarrow> 'b response \<Rightarrow> int option \<times> int option \<Rightarrow> int option \<times> int option" where
  "update_rate_state rt response st =
     (case parse_rate_limit_headers rt response of
        (_, rem, res) \<Rightarrow>
          ((case rem of None \<Rightarrow> fst st | Some r \<Rightarrow> Some r),
           (case res of None \<Rightarrow> snd st | Some r \<Rightarrow> Some r)))"

definition error_text :: "'b response \<Rightarrow> string" where
  "error_text response = (if body response \<noteq> [] then take 500 (body response) else ''(no response body)'')"

definition status_error :: "'b response \<Rightarrow> error" where
  "status_error response =
     (if status_code response = 429
      then ProviderError (''API rate limited (429) after '' @ str_nat MAX_RETRIES_PER_REQUEST
                            @ '' retries exhausted: '' @ error_text response) (Some 429)
      else ProviderError (''API request failed with status '' @ str_int (status_code response)
                            @ '': '' @ error_text response) (Some (status_code response)))"

text \<open>Merging one page: a symbol's list is created on first sight and extended after.\<close>

definition merge_symbol :: "(string \<rightharpoonup> 'b list) \<Rightarrow> string \<times> 'b list \<Rightarrow> (string \<rightharpoonup> 'b list)" where
  "merge_symbol merged_bars kv =
     (case kv of (symbol, bar_list) \<Rightarrow>
        merged_bars(symbol \<mapsto> (case merged_bars symbol of None \<Rightarrow> [] | Some l \<Rightarrow> l) @ bar_list))"

definition merge_page :: "(string \<rightharpoonup> 'b list) \<Rightarrow> (string \<times> 'b list) list \<Rightarrow> (string \<rightharpoonup> 'b list)" where
  "merge_page merged_bars items = foldl merge_symbol merged_bars items"

text \<open>\<open>http_client.get\<close> followed by the retry loop, with \<open>retries_used = 0\<close>.\<close>

definition request_with_retry ::
  "runtime \<Rightarrow> 'b world \<Rightarrow> request \<Rightarrow> ('b world \<times> (error + 'b response)) option" where
  "request_with_retry rt w req =
     (case http_get w req of
        None \<Rightarrow> None
      | Some (w1, response0) \<Rightarrow> retry_while_429 rt req w1 response0 0)"

text \<open>
  The head of one round of the pagination loop, up to the update of the rate state: the
  gate, the request with its retries, and the rate state taken from the response the
  retries ended with.  An exception of the gate or of the retry loop ends the round where
  it was raised.
\<close>

definition page_request ::
  "runtime \<Rightarrow> request \<Rightarrow> 'b world \<Rightarrow> string option \<Rightarrow> int option \<Rightarrow> int option
     \<Rightarrow> ('b world \<times> (error + 'b response \<times> int option \<times> int option)) option" where
  "page_request rt base w page_token last_remaining last_reset =
     (let current = with_page_token base page_token
      in case proactive_gate w last_remaining last_reset of
           Inl e \<Rightarrow> Some (w, Inl e)
         | Inr w0 \<Rightarrow>
             (case request_with_retry rt w0 current of
                None \<Rightarrow> None
              | Some (w2, Inl e) \<Rightarrow> Some (w2, Inl e)
              | Some (w2, Inr response) \<Rightarrow>
                  Some (w2, Inr (response, update_rate_state rt response (last_remaining, last_reset)))))"

text \<open>
  The pagination loop \<open>while True\<close>.  Its state is the world, the merged bars, the currency,
  the page token and the carried rate state.  Every round that goes on consumes a response,
  so the loop ends with the script at the latest; the source's loop ends when a page
  carries no token or an exception is raised.
\<close>

function fetch_loop ::
  "runtime \<Rightarrow> request \<Rightarrow> 'b world \<Rightarrow> (string \<rightharpoonup> 'b list) \<Rightarrow> string option \<Rightarrow> string option
     \<Rightarrow> int option \<Rightarrow> int option \<Rightarrow> ('b world \<times> (error + 'b BarsResponse)) option" where
  "fetch_loop rt base w merged_bars cur page_token last_remaining last_reset =
     (case page_request rt base w page_token last_remaining last_reset of
        None \<Rightarrow> None
      | Some (w2, Inl e) \<Rightarrow> Some (w2, Inl e)
      | Some (w2, Inr (response, st)) \<Rightarrow>
          if status_code response \<noteq> 200
          then Some (w2, Inl (status_error response))
          else (case json response of
                  Inl e \<Rightarrow>
                    Some (w2, Inl (ProviderError (''Failed to parse JSON response: '' @ e)
                                     (Some (status_code response))))
                | Inr data \<Rightarrow>
                    (let merged_bars' = merge_page merged_bars (page_bars data);
                         cur' = (if cur = None then page_currency data else cur)
                     in case next_page_token data of
                          None \<Rightarrow>
                            Some (w2, Inr \<lparr>br_bars = merged_bars', br_currency = cur'\<rparr>)
                        | Some next_token \<Rightarrow>
                            if next_token = []
                            then Some (w2, Inr \<lparr>br_bars = merged_bars', br_currency = cur'\<rparr>)
                            else fetch_loop rt base w2 merged_bars' cur' (Some next_token)
                                   (fst st) (snd st))))"
  by pat_completeness auto
termination
proof -
  have gate: "script w0 = script w"
    if "proactive_gate w a b = Inr w0" for w w0 :: "'b world" and a b
    using that
    by (auto simp: proactive_gate_def sleep_def Let_def split: option.splits if_splits)
  have get: "length (script v') < length (script v)"
    if "http_get v r = Some (v', x)" for v v' :: "'b world" and r x
    using that by (auto simp: http_get_def split: list.splits)
  have retry: "length (script v') \<le> length (script v)"
    if "retry_while_429 rt r v x n = Some (v', x')" for v v' :: "'b world" and rt r x x' n
    using that
  proof (induction rt r v x n rule: retry_while_429.induct)
    case (1 rt req w response retries_used)
    show ?case
    proof (cases "status_code response = 429 \<and> retries_used < MAX_RETRIES_PER_REQUEST")
      case False
      with "1.prems" show ?thesis
        by (auto simp: retry_while_429.simps [of rt req w response retries_used])
    next
      case True
      show ?thesis
      proof (cases "compute_sleep_seconds_for_429 rt (now w) response retries_used")
        case (Inl e)
        with True "1.prems" show ?thesis
          by (auto simp: retry_while_429.simps [of rt req w response retries_used])
      next
        case (Inr ds)
        obtain d s where ds: "ds = (d, s)" by (cases ds)
        from True Inr ds "1.prems" obtain w2 r2 where g: "http_get (sleep w d) req = Some (w2, r2)"
          and rec: "retry_while_429 rt req w2 r2 (retries_used + 1) = Some (v', x')"
          by (auto simp: retry_while_429.simps [of rt req w response retries_used] Let_def
                split: option.splits)
        from "1.IH" [OF True Inr ds [symmetric] refl g refl rec]
        have "length (script v') \<le> length (script w2)" .
        moreover from get [OF g] have "length (script w2) < length (script (sleep w d))" .
        moreover have "script (sleep w d) = script w" by (simp add: sleep_def)
        ultimately show ?thesis by simp
      qed
    qed
  qed
  have page: "length (script w2) < length (script w)"
    if "page_request rt base w page_token a b = Some (w2, Inr (response, st))"
    for w w2 :: "'b world" and rt base page_token a b response st
  proof -
    from that obtain w0 w1 r0 where
      w0: "proactive_gate w a b = Inr w0"
      and g: "http_get w0 (with_page_token base page_token) = Some (w1, r0)"
      and r: "retry_while_429 rt (with_page_token base page_token) w1 r0 0 = Some (w2, Inr response)"
      by (auto simp: page_request_def request_with_retry_def Let_def split: option.splits sum.splits)
    from get [OF g] retry [OF r] gate [OF w0] show ?thesis by simp
  qed
  show ?thesis
    by (relation "measure (\<lambda>(rt, base, w, merged_bars, cur, page_token, last_remaining, last_reset).
                             length (script w))")
       (auto dest: page)
qed

declare fetch_loop.simps [simp del]

text \<open>\<open>fetch_stock_bars\<close>: validate the arguments, build the request, run the loop with an
  empty accumulator and no rate state.\<close>

definition fetch_stock_bars ::
  "runtime \<Rightarrow> client \<Rightarrow> 'b world \<Rightarrow> bars_query \<Rightarrow> ('b world \<times> (error + 'b BarsResponse)) option" where
  "fetch_stock_bars rt c w q =
     (if q_limit q < 1 \<or> q_limit q > 10000
      then Some (w, Inl (ValueError (''limit must be between 1 and 10000, got '' @ str_int (q_limit q))))
      else (let normalized_symbols = normalize_symbols (q_symbols q)
            in if normalized_symbols = []
               then Some (w, Inl (ValueError ''At least one symbol is required''))
               else (let base = \<lparr>url = base_url c @ ''/v2/stocks/bars'',
                                  params = build_params q normalized_symbols,
                                  auth = build_auth_headers c\<rparr>
                     in fetch_loop rt base w Map.empty None None None None)))"

section \<open>Tables (the normalized schema)\<close>

text \<open>
  A row of the normalized table.  \<open>ts\<close> is a UTC instant in nanoseconds since the epoch;
  prices are \<open>float64\<close>, taken as the reals they denote (no NaN); \<open>volume\<close> is \<open>int64\<close>,
  a 64-bit word read as signed, so that sums wrap as they do in the column.  A calendar
  date is a day number.  A table is the list of its rows; the index of a table the
  normalizer or the resampler built is \<open>0, 1, ..\<close> (\<open>reset_index(drop=True)\<close>).
\<close>

type_synonym int64 = "64 word"

type_synonym date = int

record row =
  symbol :: string
  timeframe :: string
  ts :: int
  "open" :: real
  high :: real
  low :: real
  close :: real
  volume :: int64
  source :: string
  currency :: string
  adjustment :: string

text \<open>\<open>Series.unique()\<close>: the distinct values in order of first appearance.\<close>

fun unique :: "'a list \<Rightarrow> 'a list" where
  "unique [] = []"
| "unique (x # xs) = x # unique (filter (\<lambda>y. y \<noteq> x) xs)"

text \<open>The rows with their index labels.\<close>

definition labelled :: "row list \<Rightarrow> (nat \<times> row) list" where
  "labelled df = zip [0..<length df] df"

text \<open>
  \<open>sort_values("ts")\<close> and \<open>sort_index()\<close> sort a frame in two steps: the sorting algorithm
  (numpy's \<open>argsort\<close>, \<open>kind="quicksort"\<close> by default) gives the indexer, the positions of the
  rows in ascending order of the key column, and \<open>take\<close> builds the frame of the rows at
  these positions.  The default algorithm is not stable: which of two rows with the same
  key comes first is its choice.  The algorithm is therefore a parameter \<open>argsort\<close> of the
  model, from the key column to the indexer.  (A frame whose keys are in order already may
  be returned as it is, which is what one such algorithm does.)
\<close>

definition take_rows :: "nat list \<Rightarrow> 'a list \<Rightarrow> 'a list" where
  "take_rows indexer frame = map (\<lambda>i. frame ! i) (filter (\<lambda>i. i < length frame) indexer)"

definition sort_values_ts :: "(int list \<Rightarrow> nat list) \<Rightarrow> (nat \<times> row) list \<Rightarrow> (nat \<times> row) list" where
  "sort_values_ts argsort frame = take_rows (argsort (map (\<lambda>ir. ts (snd ir)) frame)) frame"

definition sort_index_ts :: "(int list \<Rightarrow> nat list) \<Rightarrow> row list \<Rightarrow> row list" where
  "sort_index_ts argsort frame = take_rows (argsort (map ts frame)) frame"

text \<open>
  What every sorting algorithm guarantees of the indexer it returns for a key column: it
  holds each position once, and the keys at its positions ascend.  The theorems below
  assume this much of \<open>argsort\<close> and no more.  (An indexer that meets it has every position
  in range, so \<open>take_rows\<close> drops none.)
\<close>

definition is_argsort :: "nat list \<Rightarrow> int list \<Rightarrow> bool" where
  "is_argsort indexer keys = (sort indexer = [0..<length keys] \<and> sorted (map (\<lambda>i. keys ! i) indexer))"

text \<open>
  Two sorting algorithms: a stable one, and one that puts rows with the same key in the
  reverse of the order they had.
\<close>

definition stable_argsort :: "int list \<Rightarrow> nat list" where
  "stable_argsort keys = map fst (sort_key snd (zip [0..<length keys] keys))"

definition reversing_argsort :: "int list \<Rightarrow> nat list" where
  "reversing_argsort keys = rev (map fst (sort_key (\<lambda>ik. - snd ik) (zip [0..<length keys] keys)))"

section \<open>The validator (validate.py)\<close>

record summary =
  symbols_count :: nat
  bars_count :: nat
  date_range :: "date \<times> date"

record ohlc_violation =
  ov_symbol :: string
  ov_ts :: int
  ov_open :: real
  ov_high :: real
  ov_low :: real
  ov_close :: real
  ov_issue :: string

record volume_violation =
  vv_symbol :: string
  vv_ts :: int
  vv_volume :: int

text \<open>
  \<open>duplicates\<close> holds (symbol, ts, count), \<open>non_monotonic\<close> holds
  (symbol, example_ts_prev, example_ts_next).
\<close>

record issues =
  duplicates :: "(string \<times> int \<times> nat) list"
  non_monotonic :: "(string \<times> int \<times> int) list"
  ohlc_violations_count :: nat
  ohlc_violations_samples :: "ohlc_violation list"
  volume_violations_count :: nat
  volume_violations_samples :: "volume_violation list"

text \<open>
  The \<open>"missing_days"\<close> entry of the report is one dict, whose keys are strings: under a
  symbol the list of its missing dates, under \<open>"error"\<close> the message of the calendar's
  exception, under \<open>"totals"\<close> the dict that holds \<open>missing_days_count_total\<close>.  A dict is
  the list of its items in insertion order; an assignment to a key that is present replaces
  the value where it stands, any other adds an item at the end.
\<close>

datatype missing_days_value = MissingDates "date list" | ErrorText string | Totals nat

fun dict_set :: "('k \<times> 'v) list \<Rightarrow> 'k \<Rightarrow> 'v \<Rightarrow> ('k \<times> 'v) list" where
  "dict_set [] k v = [(k, v)]"
| "dict_set (item # items) k v =
     (if fst item = k then (k, v) # items else item # dict_set items k v)"

text \<open>\<open>missing_days\<close> is \<open>None\<close> in the report \<open>_validate_bars_issues\<close> returns, which has
  no such key yet.\<close>

record report =
  summary :: summary
  issues :: issues
  missing_days :: "(string \<times> missing_days_value) list option"

text \<open>
  Duplicates: the rows whose (symbol, ts) occurs more than once
  (\<open>duplicated(keep=False)\<close>), grouped by (symbol, ts) in ascending key order, each group
  with its size.
\<close>

definition is_duplicated :: "row list \<Rightarrow> row \<Rightarrow> bool" where
  "is_duplicated df r = (1 < count_list (map (\<lambda>x. (symbol x, ts x)) df) (symbol r, ts r))"

definition duplicate_groups :: "row list \<Rightarrow> (string \<times> int \<times> nat) list" where
  "duplicate_groups dup_rows =
     (let keys = map (\<lambda>r. (symbol r, ts r)) dup_rows
      in map (\<lambda>k. (fst k, snd k, count_list keys k)) (sort (remdups keys)))"

definition find_duplicates :: "row list \<Rightarrow> (string \<times> int \<times> nat) list" where
  "find_duplicates df = duplicate_groups (filter (is_duplicated df) df)"

text \<open>
  The monotonic check on one symbol's frame after \<open>sort_values("ts")\<close>: \<open>diff()\<close> pairs
  every row but the first with the row before it; the violations are the rows whose
  difference is not positive; the example is taken at the first violation, if its index
  label is positive.
\<close>

definition first_violation :: "(nat \<times> row) list \<Rightarrow> ((nat \<times> row) \<times> (nat \<times> row)) option" where
  "first_violation symbol_df =
     (case filter (\<lambda>pc. ts (snd (snd pc)) - ts (snd (fst pc)) \<le> 0) (zip symbol_df (tl symbol_df)) of
        [] \<Rightarrow> None
      | pc # _ \<Rightarrow> Some pc)"

definition non_monotonic_of_sorted :: "string \<Rightarrow> (nat \<times> row) list \<Rightarrow> (string \<times> int \<times> int) option" where
  "non_monotonic_of_sorted symb symbol_df =
     (if 1 < length symbol_df
      then (case first_violation symbol_df of
              None \<Rightarrow> None
            | Some pc \<Rightarrow>
                if 0 < fst (snd pc)
                then Some (symb, ts (snd (fst pc)), ts (snd (snd pc)))
                else None)
      else None)"

definition non_monotonic_example ::
  "(int list \<Rightarrow> nat list) \<Rightarrow> (nat \<times> row) list \<Rightarrow> string \<Rightarrow> (string \<times> int \<times> int) option" where
  "non_monotonic_example argsort frame symb =
     non_monotonic_of_sorted symb (sort_values_ts argsort (filter (\<lambda>ir. symbol (snd ir) = symb) frame))"

text \<open>The OHLC check of one row: the first of the three tests that fails names the issue.\<close>

definition ohlc_issue :: "row \<Rightarrow> string option" where
  "ohlc_issue r =
     (if high r < max (open r) (close r) then Some ''high < max(open, close)''
      else if low r > min (open r) (close r) then Some ''low > min(open, close)''
      else if high r < low r then Some ''high < low''
      else None)"

definition ohlc_violation_of :: "row \<Rightarrow> ohlc_violation option" where
  "ohlc_violation_of r =
     map_option (\<lambda>issue. \<lparr>ov_symbol = symbol r, ov_ts = ts r, ov_open = open r, ov_high = high r,
                           ov_low = low r, ov_close = close r, ov_issue = issue\<rparr>)
       (ohlc_issue r)"

definition volume_violation_of :: "row \<Rightarrow> volume_violation" where
  "volume_violation_of r = \<lparr>vv_symbol = symbol r, vv_ts = ts r, vv_volume = sint (volume r)\<rparr>"

definition negative_volume :: "row \<Rightarrow> bool" where
  "negative_volume r = (sint (volume r) < 0)"

definition empty_issues :: issues where
  "empty_issues = \<lparr>duplicates = [], non_monotonic = [], ohlc_violations_count = 0,
     ohlc_violations_samples = [], volume_violations_count = 0, volume_violations_samples = []\<rparr>"

text \<open>\<open>_validate_bars_issues\<close>: the report with summary and issues filled, and \<open>ok\<close>.\<close>

definition validate_bars_issues ::
  "(int list \<Rightarrow> nat list) \<Rightarrow> row list \<Rightarrow> date \<Rightarrow> date \<Rightarrow> report \<times> bool" where
  "validate_bars_issues argsort df start_date end_date =
     (if df = []
      then (\<lparr>summary = \<lparr>symbols_count = 0, bars_count = 0, date_range = (start_date, end_date)\<rparr>,
             issues = empty_issues, missing_days = None\<rparr>, True)
      else (let dups = find_duplicates df;
                non_mono = List.map_filter (non_monotonic_example argsort (labelled df))
                             (unique (map symbol df));
                ohlc = List.map_filter ohlc_violation_of df;
                vol = map volume_violation_of (filter negative_volume df);
                rep = \<lparr>summary = \<lparr>symbols_count = length (unique (map symbol df)),
                                    bars_count = length df,
                                    date_range = (start_date, end_date)\<rparr>,
                       issues = \<lparr>duplicates = dups, non_monotonic = non_mono,
                                   ohlc_violations_count = length ohlc,
                                   ohlc_violations_samples = take 20 ohlc,
                                   volume_violations_count = length vol,
                                   volume_violations_samples = take 20 vol\<rparr>,
                       missing_days = None\<rparr>;
                ok = (length dups = 0 \<and> length non_mono = 0 \<and> length ohlc = 0 \<and> length vol = 0)
            in (rep, ok)))"

text \<open>
  The calendar check of \<open>validate_daily_bars\<close>.  The two collaborators are parameters:
  \<open>sessions_in_range start end\<close> is the trading calendar (\<open>Inl\<close> the message of the
  exception it raised, \<open>Inr\<close> the session dates), \<open>ny_date\<close> gives the New York calendar
  date of an instant.  The loop fills \<open>missing_days_per_symbol\<close> with one item for each
  symbol that misses a day (the symbols it runs over are distinct).  That dict becomes the
  \<open>"missing_days"\<close> entry, and the total, computed from its values, is then assigned to its
  key \<open>"totals"\<close>.  When the calendar fails the entry is the empty dict assigned before the
  \<open>try\<close>, with \<open>"error"\<close> and \<open>"totals"\<close> assigned in the handler.
\<close>

definition missing_days_for :: "(int \<Rightarrow> date) \<Rightarrow> date list \<Rightarrow> row list \<Rightarrow> string \<Rightarrow> (string \<times> date list) option" where
  "missing_days_for ny_date expected_dates df symb =
     (let symbol_df = filter (\<lambda>r. symbol r = symb) df;
          present_dates = map (\<lambda>r. ny_date (ts r)) symbol_df;
          missing_dates = sort (remdups (filter (\<lambda>d. d \<notin> set present_dates) expected_dates))
      in if missing_dates \<noteq> [] then Some (symb, missing_dates) else None)"

definition validate_daily_bars ::
  "(int list \<Rightarrow> nat list) \<Rightarrow> (date \<Rightarrow> date \<Rightarrow> string + date list) \<Rightarrow> (int \<Rightarrow> date)
     \<Rightarrow> row list \<Rightarrow> date \<Rightarrow> date \<Rightarrow> bool \<times> report" where
  "validate_daily_bars argsort sessions_in_range ny_date df start_date end_date =
     (case validate_bars_issues argsort df start_date end_date of
        (rep, ok) \<Rightarrow>
          if df = []
          then (True, rep\<lparr>missing_days := Some (dict_set [] ''totals'' (Totals 0))\<rparr>)
          else (case sessions_in_range start_date end_date of
                  Inr sessions \<Rightarrow>
                    (let missing_days_per_symbol =
                           List.map_filter (missing_days_for ny_date sessions df) (unique (map symbol df));
                         total = sum_list (map (\<lambda>sd. length (snd sd)) missing_days_per_symbol)
                     in (ok, rep\<lparr>missing_days := Some
                           (dict_set (map (\<lambda>sd. (fst sd, MissingDates (snd sd))) missing_days_per_symbol)
                              ''totals'' (Totals total))\<rparr>))
                | Inl e \<Rightarrow>
                    (ok, rep\<lparr>missing_days := Some
                           (dict_set (dict_set [] ''error'' (ErrorText e)) ''totals'' (Totals 0))\<rparr>)))"

definition validate_weekly_bars ::
  "(int list \<Rightarrow> nat list) \<Rightarrow> row list \<Rightarrow> date \<Rightarrow> date \<Rightarrow> bool \<times> report" where
  "validate_weekly_bars argsort df start_date end_date =
     (case validate_bars_issues argsort df start_date end_date of
        (rep, ok) \<Rightarrow> (ok, rep\<lparr>missing_days := Some [(''totals'', Totals 0)]\<rparr>))"

section \<open>The resampler (resample.py)\<close>

definition DAY_NS :: int where
  "DAY_NS = 86400000000000"

definition WEEK_NS :: int where
  "WEEK_NS = 7 * DAY_NS"

text \<open>
  What \<open>resample("W-MON", label="left", closed="left")\<close> does with the sorted index of one
  symbol.  The first bin edge is the first timestamp normalized to midnight and rolled
  back to a Monday (\<open>weekday\<close> counts from Monday = 0; day 0 of the epoch was a
  Thursday); the edges follow every seven days; the labels are the edges up to the last
  one that is not after the last timestamp's day.
\<close>

definition normalize_ts :: "int \<Rightarrow> int" where
  "normalize_ts t = t - t mod DAY_NS"

definition weekday :: "int \<Rightarrow> int" where
  "weekday t = (t div DAY_NS + 3) mod 7"

definition rollback_monday :: "int \<Rightarrow> int" where
  "rollback_monday t = t - weekday t * DAY_NS"

definition week_labels :: "int \<Rightarrow> int \<Rightarrow> int list" where
  "week_labels first_ts last_ts =
     (let first = rollback_monday (normalize_ts first_ts);
          n = nat ((normalize_ts last_ts - first) div WEEK_NS) + 1
      in map (\<lambda>k. first + int k * WEEK_NS) [0..<n])"

text \<open>
  The aggregation of one bin, closed on the left: the rows from the label up to, not
  including, the next label.  The result is (ts, open, high, low, close, volume) with
  open = first, high = max, low = min, close = last, volume = sum; \<open>None\<close> stands for the
  row of an empty bin, whose open is NaN and which \<open>dropna(subset=["open"])\<close> removes.
\<close>

definition resample_bin :: "row list \<Rightarrow> int \<Rightarrow> (int \<times> real \<times> real \<times> real \<times> real \<times> int64) option" where
  "resample_bin sym_df label =
     (case filter (\<lambda>r. label \<le> ts r \<and> ts r < label + WEEK_NS) sym_df of
        [] \<Rightarrow> None
      | r # rs \<Rightarrow>
          Some (label, open r, fold max (map high rs) (high r), fold min (map low rs) (low r),
                close (last (r # rs)), sum_list (map volume (r # rs))))"

definition weekly_row :: "string \<Rightarrow> row \<Rightarrow> int \<times> real \<times> real \<times> real \<times> real \<times> int64 \<Rightarrow> row" where
  "weekly_row symb first_row agg =
     (case agg of (t, op, hi, lo, cl, vol) \<Rightarrow>
        \<lparr>symbol = symb, timeframe = ''1w'', ts = t, open = op, high = hi, low = lo, close = cl,
         volume = vol, source = source first_row, currency = currency first_row,
         adjustment = adjustment first_row\<rparr>)"

text \<open>
  One round of the loop \<open>for symbol in df["symbol"].unique()\<close>: the symbol's rows, indexed
  by \<open>ts\<close> and sorted by \<open>sort_index()\<close>, are resampled, and the metadata is taken from the
  first row of the sorted frame.  The symbol's frame is never empty, the symbol being one
  of the table's.
\<close>

definition weekly_rows_of_symbol :: "(int list \<Rightarrow> nat list) \<Rightarrow> row list \<Rightarrow> string \<Rightarrow> row list" where
  "weekly_rows_of_symbol argsort df symb =
     (case sort_index_ts argsort (filter (\<lambda>r. symbol r = symb) df) of
        [] \<Rightarrow> []
      | first_row # rest \<Rightarrow>
          (let sym_df = first_row # rest;
               resampled = map (resample_bin sym_df) (week_labels (ts first_row) (ts (last sym_df)));
               dropped = List.map_filter (\<lambda>x. x) resampled
           in if dropped = [] then [] else map (weekly_row symb first_row) dropped))"

text \<open>
  \<open>to_weekly\<close>.  The last step sorts the rows by (symbol, ts); no two rows of the weekly
  parts have the same symbol and timestamp (lemma \<open>weekly_keys_distinct\<close> below), so every
  sorting algorithm gives the same order.
\<close>

definition to_weekly :: "(int list \<Rightarrow> nat list) \<Rightarrow> row list \<Rightarrow> row list" where
  "to_weekly argsort df_daily =
     (if df_daily = [] then []
      else (let weekly_parts = map (weekly_rows_of_symbol argsort df_daily) (unique (map symbol df_daily))
            in if weekly_parts = [] then []
               else sort_key (\<lambda>r. (symbol r, ts r)) (concat weekly_parts)))"

section \<open>The validator on frames in a store\<close>

text \<open>
  To say what a call leaves of its argument, the frames live in a store: a frame is an
  object at an address, an operation of pandas that builds a frame (\<open>df[mask]\<close>,
  \<open>sort_values\<close>, \<open>copy\<close>) puts a new object at a fresh address, and the column
  assignment \<open>frame["bar_date"] = ...\<close> changes the object at its address.  A frame has its
  labelled rows and, once assigned, the \<open>bar_date\<close> column.  The functions below are the
  validators once more, with every frame they build put in the store and the report
  computed from the frames read back.
\<close>

record frame =
  f_rows :: "(nat \<times> row) list"
  f_bar_date :: "date list option"

type_synonym store = "frame list"

definition alloc :: "store \<Rightarrow> frame \<Rightarrow> store \<times> nat" where
  "alloc st fr = (st @ [fr], length st)"

definition select_frame :: "(nat \<times> row \<Rightarrow> bool) \<Rightarrow> frame \<Rightarrow> frame" where
  "select_frame P fr =
     \<lparr>f_rows = filter P (f_rows fr),
      f_bar_date = map_option (\<lambda>ds. map snd (filter (\<lambda>p. P (fst p)) (zip (f_rows fr) ds)))
                     (f_bar_date fr)\<rparr>"

definition sort_frame :: "(int list \<Rightarrow> nat list) \<Rightarrow> frame \<Rightarrow> frame" where
  "sort_frame argsort fr =
     (let indexer = argsort (map (\<lambda>ir. ts (snd ir)) (f_rows fr))
      in \<lparr>f_rows = take_rows indexer (f_rows fr),
          f_bar_date = map_option (take_rows indexer) (f_bar_date fr)\<rparr>)"

text \<open>\<open>df[mask]\<close>, \<open>df.sort_values("ts")\<close> and \<open>df.copy()\<close>: each returns a new frame.\<close>

definition df_select :: "store \<Rightarrow> nat \<Rightarrow> (nat \<times> row \<Rightarrow> bool) \<Rightarrow> store \<times> nat" where
  "df_select st a P = alloc st (select_frame P (st ! a))"

definition df_sort_values_ts :: "(int list \<Rightarrow> nat list) \<Rightarrow> store \<Rightarrow> nat \<Rightarrow> store \<times> nat" where
  "df_sort_values_ts argsort st a = alloc st (sort_frame argsort (st ! a))"

definition df_copy :: "store \<Rightarrow> nat \<Rightarrow> store \<times> nat" where
  "df_copy st a = alloc st (st ! a)"

text \<open>\<open>frame["bar_date"] = frame["ts"].dt.tz_convert(NY_TZ).dt.date\<close>: the frame at the
  address gets the column.\<close>

definition df_set_bar_date :: "store \<Rightarrow> nat \<Rightarrow> (int \<Rightarrow> date) \<Rightarrow> store" where
  "df_set_bar_date st a ny_date =
     st[a := (st ! a)\<lparr>f_bar_date := Some (map (\<lambda>ir. ny_date (ts (snd ir))) (f_rows (st ! a)))\<rparr>]"

definition rows_at :: "store \<Rightarrow> nat \<Rightarrow> row list" where
  "rows_at st a = map snd (f_rows (st ! a))"

text \<open>The loop \<open>for symbol in df["symbol"].unique()\<close> of the monotonic check.\<close>

fun non_monotonic_loop_st ::
  "(int list \<Rightarrow> nat list) \<Rightarrow> store \<Rightarrow> nat \<Rightarrow> string list \<Rightarrow> store \<times> (string \<times> int \<times> int) list" where
  "non_monotonic_loop_st argsort st a [] = (st, [])"
| "non_monotonic_loop_st argsort st a (symb # rest) =
     (case df_select st a (\<lambda>ir. symbol (snd ir) = symb) of
        (st1, selected) \<Rightarrow>
          (case df_sort_values_ts argsort st1 selected of
             (st2, symbol_df) \<Rightarrow>
               (let st3 = (if 1 < length (f_rows (st2 ! symbol_df))
                           then fst (df_select st2 symbol_df
                                       (\<lambda>ir. \<exists>pc \<in> set (zip (f_rows (st2 ! symbol_df))
                                                             (tl (f_rows (st2 ! symbol_df)))).
                                                snd pc = ir \<and> ts (snd (snd pc)) - ts (snd (fst pc)) \<le> 0))
                           else st2);
                    example = non_monotonic_of_sorted symb (f_rows (st2 ! symbol_df))
                in case non_monotonic_loop_st argsort st3 a rest of
                     (st4, examples) \<Rightarrow>
                       (st4, (case example of None \<Rightarrow> examples | Some e \<Rightarrow> e # examples)))))"

definition validate_bars_issues_st ::
  "(int list \<Rightarrow> nat list) \<Rightarrow> store \<Rightarrow> nat \<Rightarrow> date \<Rightarrow> date \<Rightarrow> store \<times> report \<times> bool" where
  "validate_bars_issues_st argsort st a start_date end_date =
     (let df = rows_at st a
      in if df = []
         then (st, \<lparr>summary = \<lparr>symbols_count = 0, bars_count = 0, date_range = (start_date, end_date)\<rparr>,
                    issues = empty_issues, missing_days = None\<rparr>, True)
         else (case df_select st a (\<lambda>ir. is_duplicated df (snd ir)) of
                 (st1, duplicates_frame) \<Rightarrow>
                   (case non_monotonic_loop_st argsort st1 a (unique (map symbol (rows_at st1 a))) of
                      (st2, non_mono) \<Rightarrow>
                        (case df_select st2 a (\<lambda>ir. negative_volume (snd ir)) of
                           (st3, negative_volume_frame) \<Rightarrow>
                             (let dups = duplicate_groups (rows_at st1 duplicates_frame);
                                  ohlc = List.map_filter ohlc_violation_of (rows_at st2 a);
                                  vol = map volume_violation_of (rows_at st3 negative_volume_frame);
                                  rep = \<lparr>summary = \<lparr>symbols_count = length (unique (map symbol df)),
                                                      bars_count = length df,
                                                      date_range = (start_date, end_date)\<rparr>,
                                         issues = \<lparr>duplicates = dups, non_monotonic = non_mono,
                                                     ohlc_violations_count = length ohlc,
                                                     ohlc_violations_samples = take 20 ohlc,
                                                     volume_violations_count = length vol,
                                                     volume_violations_samples = take 20 vol\<rparr>,
                                         missing_days = None\<rparr>;
                                  ok = (length dups = 0 \<and> length non_mono = 0 \<and> length ohlc = 0
                                        \<and> length vol = 0)
                              in (st3, rep, ok))))))"

text \<open>The loop of the calendar check: the symbol's rows are selected, the selection is
  copied, and the copy gets the \<open>bar_date\<close> column.\<close>

fun missing_days_loop_st ::
  "(int \<Rightarrow> date) \<Rightarrow> date list \<Rightarrow> store \<Rightarrow> nat \<Rightarrow> string list \<Rightarrow> store \<times> (string \<times> date list) list" where
  "missing_days_loop_st ny_date expected_dates st a [] = (st, [])"
| "missing_days_loop_st ny_date expected_dates st a (symb # rest) =
     (case df_select st a (\<lambda>ir. symbol (snd ir) = symb) of
        (st1, symbol_df) \<Rightarrow>
          (case df_copy st1 symbol_df of
             (st2, symbol_df_ny) \<Rightarrow>
               (let st3 = df_set_bar_date st2 symbol_df_ny ny_date;
                    present_dates = (case f_bar_date (st3 ! symbol_df_ny) of None \<Rightarrow> [] | Some ds \<Rightarrow> ds);
                    missing_dates = sort (remdups (filter (\<lambda>d. d \<notin> set present_dates) expected_dates))
                in case missing_days_loop_st ny_date expected_dates st3 a rest of
                     (st4, found) \<Rightarrow>
                       (st4, if missing_dates \<noteq> [] then (symb, missing_dates) # found else found))))"

definition validate_daily_bars_st ::
  "(int list \<Rightarrow> nat list) \<Rightarrow> (date \<Rightarrow> date \<Rightarrow> string + date list) \<Rightarrow> (int \<Rightarrow> date)
     \<Rightarrow> store \<Rightarrow> nat \<Rightarrow> date \<Rightarrow> date \<Rightarrow> store \<times> bool \<times> report" where
  "validate_daily_bars_st argsort sessions_in_range ny_date st a start_date end_date =
     (case validate_bars_issues_st argsort st a start_date end_date of
        (st1, rep, ok) \<Rightarrow>
          if rows_at st1 a = []
          then (st1, True, rep\<lparr>missing_days := Some (dict_set [] ''totals'' (Totals 0))\<rparr>)
          else (case sessions_in_range start_date end_date of
                  Inr sessions \<Rightarrow>
                    (case missing_days_loop_st ny_date sessions st1 a (unique (map symbol (rows_at st1 a))) of
                       (st2, missing_days_per_symbol) \<Rightarrow>
                         (let total = sum_list (map (\<lambda>sd. length (snd sd)) missing_days_per_symbol)
                          in (st2, ok, rep\<lparr>missing_days := Some
                                (dict_set (map (\<lambda>sd. (fst sd, MissingDates (snd sd))) missing_days_per_symbol)
                                   ''totals'' (Totals total))\<rparr>)))
                | Inl e \<Rightarrow>
                    (st1, ok, rep\<lparr>missing_days := Some
                       (dict_set (dict_set [] ''error'' (ErrorText e)) ''totals'' (Totals 0))\<rparr>)))"

definition validate_weekly_bars_st ::
  "(int list \<Rightarrow> nat list) \<Rightarrow> store \<Rightarrow> nat \<Rightarrow> date \<Rightarrow> date \<Rightarrow> store \<times> bool \<times> report" where
  "validate_weekly_bars_st argsort st a start_date end_date =
     (case validate_bars_issues_st argsort st a start_date end_date of
        (st1, rep, ok) \<Rightarrow> (st1, ok, rep\<lparr>missing_days := Some [(''totals'', Totals 0)]\<rparr>))"

section \<open>Definitions that follow the claims' words\<close>

text \<open>
  The rate state claim C5 describes: every response received, the retried 429 responses
  too, overwrites the carried state in the order of arrival.
\<close>

definition rate_state_every_response ::
  "runtime \<Rightarrow> 'b response list \<Rightarrow> int option \<times> int option \<Rightarrow> int option \<times> int option" where
  "rate_state_every_response rt responses st = foldl (\<lambda>s r. update_rate_state rt r s) st responses"

text \<open>
  The first occurrence of a non-monotonic pair in one symbol's timestamps, once they are
  sorted: the least timestamp that occurs more than once.
\<close>

definition least_repeated :: "int list \<Rightarrow> int" where
  "least_repeated tss = Min {t \<in> set tss. 1 < count_list tss t}"


text \<open>
  The Monday 00:00:00 UTC that begins the Monday-to-Sunday week of an instant (the epoch
  fell on a Thursday, three days after a Monday).  An instant is a Monday 00:00:00 UTC
  exactly when it is its own week start.
\<close>

definition week_start :: "int \<Rightarrow> int" where
  "week_start t = t - (t + 3 * DAY_NS) mod WEEK_NS"

section \<open>Example inputs\<close>

text \<open>Concrete responses, worlds and calls on which the theorems below are instantiated.\<close>

definition throttled :: "(string \<times> string) list \<Rightarrow> nat response" where
  "throttled hs = \<lparr>status_code = 429, headers = hs, body = ''rate limited'', json = Inl ''no json''\<rparr>"

definition page :: "(string \<times> string) list \<Rightarrow> nat payload \<Rightarrow> nat response" where
  "page hs d = \<lparr>status_code = 200, headers = hs, body = ''{...}'', json = Inr d\<rparr>"

definition fixed_clock :: "real \<Rightarrow> nat \<Rightarrow> real" where
  "fixed_clock t n = t"

definition world_of :: "nat response list \<Rightarrow> real \<Rightarrow> nat world" where
  "world_of rs t = \<lparr>script = rs, clock = fixed_clock t, sleeps = [], requests = []\<rparr>"

definition example_client :: client where
  "example_client = \<lparr>api_key = ''key'', api_secret = ''secret'', base_url = ''https://data.alpaca.markets''\<rparr>"

definition example_query :: bars_query where
  "example_query = \<lparr>q_symbols = [''spy''], q_timeframe = ''1Day'', q_start = ''2024-01-01'',
     q_end = ''2024-01-03'', q_limit = 10000, q_adjustment = ''raw'', q_feed = None, q_asof = None,
     q_sort = ''asc''\<rparr>"

definition example_request :: request where
  "example_request = \<lparr>url = ''https://data.alpaca.markets/v2/stocks/bars'',
     params = build_params example_query [''SPY''], auth = build_auth_headers example_client\<rparr>"

text \<open>Pages: a last page with an empty token and one with none, a response left unread
  behind them, a 429 that reports an exhausted quota, and the two pages of a two-page
  fetch, the first with and without rate-limit headers.\<close>

definition last_page_empty_token :: "nat response" where
  "last_page_empty_token = page [] \<lparr>page_bars = [(''SPY'', [101])], page_currency = None, next_page_token = Some []\<rparr>"

definition last_page_no_token :: "nat response" where
  "last_page_no_token = page [] \<lparr>page_bars = [(''SPY'', [101])], page_currency = None, next_page_token = None\<rparr>"

definition unread_page :: "nat response" where
  "unread_page = page [] \<lparr>page_bars = [(''SPY'', [102])], page_currency = None, next_page_token = None\<rparr>"

definition throttled_with_quota :: "nat response" where
  "throttled_with_quota = throttled [(''retry-after'', ''0''), (''x-ratelimit-remaining'', ''0''),
     (''x-ratelimit-reset'', ''1001'')]"

definition first_page_no_headers :: "nat response" where
  "first_page_no_headers = page [] \<lparr>page_bars = [(''SPY'', [101])], page_currency = None, next_page_token = Some ''tok1''\<rparr>"


definition second_page :: "nat response" where
  "second_page = page []
     \<lparr>page_bars = [(''SPY'', [102]), (''TSLA'', [103])], page_currency = Some ''USD'', next_page_token = None\<rparr>"

text \<open>
  A reset header of 310 digits, the integer \<open>10 ** 309\<close>, which has no float; a 429 that
  carries it and no Retry-After; a first page that reports an exhausted quota with it.
\<close>

definition huge_reset :: string where
  "huge_reset = CHR ''1'' # replicate 309 (CHR ''0'')"

definition throttled_huge_reset :: "nat response" where
  "throttled_huge_reset = throttled [(''x-ratelimit-reset'', huge_reset)]"

definition first_page_huge_reset :: "nat response" where
  "first_page_huge_reset = page [(''x-ratelimit-remaining'', ''0''), (''x-ratelimit-reset'', huge_reset)]
     \<lparr>page_bars = [(''SPY'', [101])], page_currency = Some ''USD'', next_page_token = Some ''tok1''\<rparr>"

text \<open>Rows and calendars for the validator: a well-formed bar of a symbol at an instant, a
  calendar that fails, a calendar of the weekdays, and the date five hours behind UTC.
  Day 19723 is Monday 2024-01-01; 1704171600000000000 is 2024-01-02 05:00 UTC.\<close>

definition bar :: "string \<Rightarrow> int \<Rightarrow> row" where
  "bar s t = \<lparr>symbol = s, timeframe = ''1d'', ts = t, open = 10, high = 12, low = 9, close = 11,
     volume = 1000, source = ''alpaca'', currency = ''USD'', adjustment = ''raw''\<rparr>"

text \<open>
  Tables for the monotonic check: one where AAPL has the timestamps 3, 1, 3, 1, one where
  its rows are strictly descending, and one whose two rows have the same timestamp.
\<close>

definition repeated_table :: "row list" where
  "repeated_table = [bar ''AAPL'' 3, bar ''AAPL'' 1, bar ''MSFT'' 2, bar ''AAPL'' 3, bar ''AAPL'' 1]"

definition descending_table :: "row list" where
  "descending_table = [bar ''AAPL'' 2, bar ''AAPL'' 1]"

definition tied_table :: "row list" where
  "tied_table = [bar ''AAPL'' 3, bar ''AAPL'' 3]"

definition failing_calendar :: "date \<Rightarrow> date \<Rightarrow> string + date list" where
  "failing_calendar start_date end_date = Inl ''unknown exchange''"

definition weekday_calendar :: "date \<Rightarrow> date \<Rightarrow> string + date list" where
  "weekday_calendar start_date end_date =
     Inr (filter (\<lambda>d. (d + 3) mod 7 < 5) [start_date..end_date])"

definition est_date :: "int \<Rightarrow> date" where
  "est_date t = (t - 5 * 3600000000000) div 86400000000000"

definition example_table :: "row list" where
  "example_table = [bar ''AAPL'' 1704171600000000000, bar ''AAPL'' 1704258000000000000]"

definition example_store :: store where
  "example_store = [\<lparr>f_rows = labelled example_table, f_bar_date = None\<rparr>]"

text \<open>Daily bars for the resampler, stamped 04:00 UTC on a day given by its number.\<close>

definition daily :: "string \<Rightarrow> int \<Rightarrow> real \<Rightarrow> real \<Rightarrow> real \<Rightarrow> real \<Rightarrow> int64 \<Rightarrow> row" where
  "daily s day op hi lo cl vol = \<lparr>symbol = s, timeframe = ''1d'', ts = day * DAY_NS + 4 * 3600000000000,
     open = op, high = hi, low = lo, close = cl, volume = vol, source = ''alpaca'',
     currency = ''USD'', adjustment = ''raw''\<rparr>"

definition two_weeks :: "row list" where
  "two_weeks = [daily ''AAPL'' 19724 10 12 9 11 100, daily ''AAPL'' 19725 11 15 10 14 200,
                daily ''AAPL'' 19730 14 16 13 15 300, daily ''AAPL'' 19744 20 21 19 20 50,
                daily ''MSFT'' 19723 30 31 29 30 10, daily ''MSFT'' 19729 31 35 30 34 20]"

text \<open>
  Two daily bars of one week whose volumes are \<open>2 ** 62\<close> each, and two daily bars with the
  same timestamp.
\<close>

definition heavy_week :: "row list" where
  "heavy_week = [daily ''AAPL'' 19723 10 12 9 11 4611686018427387904,
                 daily ''AAPL'' 19724 11 13 10 12 4611686018427387904]"

definition tied_week :: "row list" where
  "tied_week = [daily ''AAPL'' 19723 4 5 3 4 10, daily ''AAPL'' 19723 15 16 14 15 20]"

section \<open>Properties of the client\<close>

subsection \<open>Retry delay\<close>

lemma clamp_secs_bounds: "0 \<le> hi \<Longrightarrow> 0 \<le> clamp_secs x hi \<and> clamp_secs x hi \<le> hi"
  by (cases x) auto

lemma compute_sleep_Inl:
  "compute_sleep_seconds_for_429 rt t response attempt_index = Inl e
   \<Longrightarrow> e = OverflowError ''int too large to convert to float''"
  by (auto simp: compute_sleep_seconds_for_429_def Let_def split: option.splits if_splits)

text \<open>
  C4 (as amended).  The retry delay is chosen by the first strategy that applies: a
  Retry-After header that \<open>float()\<close> accepts, clamped to [0, 5]; else an
  X-RateLimit-Reset header that \<open>int()\<close> accepts, the delay being the reset minus the clock
  reading truncated to whole seconds, clamped to [0, 5], where that difference has a float;
  else the backoff table 0.5, 1, 2, 4 indexed by the attempt, and 5 past its end.  A header
  that does not parse passes to the next strategy, and every delay computed lies in [0, 5].
\<close>

theorem retry_delay_precedence:
  "(\<forall>secs. parse_header_float rt response ''retry-after'' = Some secs \<longrightarrow>
      compute_sleep_seconds_for_429 rt t response attempt_index
        = Inr (clamp_secs secs 5, ''Retry-After''))
   \<and> (\<forall>reset_ts. parse_header_float rt response ''retry-after'' = None
          \<and> parse_header_int rt response ''x-ratelimit-reset'' = Some reset_ts
          \<and> \<bar>reset_ts - py_int_of_float t\<bar> < FLOAT_INT_LIMIT \<longrightarrow>
      compute_sleep_seconds_for_429 rt t response attempt_index
        = Inr (min (max 0 (real_of_int (reset_ts - py_int_of_float t))) 5, ''X-RateLimit-Reset''))
   \<and> (parse_header_float rt response ''retry-after'' = None
        \<and> parse_header_int rt response ''x-ratelimit-reset'' = None \<longrightarrow>
      compute_sleep_seconds_for_429 rt t response attempt_index
        = Inr ((if attempt_index < 4 then [1 / 2, 1, 2, 4] ! attempt_index else 5), ''backoff''))
   \<and> (\<forall>secs strategy. compute_sleep_seconds_for_429 rt t response attempt_index = Inr (secs, strategy)
        \<longrightarrow> 0 \<le> secs \<and> secs \<le> 5)"
proof -
  have b: "attempt_index < 4 \<Longrightarrow>
      [1 / 2, 1, 2, 4::real] ! attempt_index \<le> 5 \<and> 0 \<le> [1 / 2, 1, 2, 4::real] ! attempt_index"
    by (auto simp: less_Suc_eq numeral_eq_Suc nth_Cons')
  show ?thesis
    using b clamp_secs_bounds [of 5]
    by (auto simp: compute_sleep_seconds_for_429_def MAX_SLEEP_SECONDS_def BACKOFF_BASE_SECONDS_def
          py_float_of_int_def Let_def min_def split: option.splits if_splits)
qed

text \<open>
  The three strategies on concrete responses, at the clock reading 1000.5: Retry-After 7
  wins over a reset header and is clamped to 5; an unparsable Retry-After passes to the
  reset header 1001, which gives 1001 - 1000 = 1; with no usable header the third attempt
  waits 2.
\<close>

theorem retry_delay_precedence_witness:
  "compute_sleep_seconds_for_429 decimal_runtime (2001 / 2)
      (throttled [(''retry-after'', ''7''), (''x-ratelimit-reset'', ''1001'')]) 0 = Inr (5, ''Retry-After'')
   \<and> compute_sleep_seconds_for_429 decimal_runtime (2001 / 2)
      (throttled [(''retry-after'', ''soon''), (''x-ratelimit-reset'', ''1001'')]) 0
        = Inr (1, ''X-RateLimit-Reset'')
   \<and> compute_sleep_seconds_for_429 decimal_runtime (2001 / 2)
      (throttled [(''retry-after'', ''soon'')]) 2 = Inr (2, ''backoff'')"
proof -
  let ?a = "throttled [(''retry-after'', ''7''), (''x-ratelimit-reset'', ''1001'')]"
  let ?b = "throttled [(''retry-after'', ''soon''), (''x-ratelimit-reset'', ''1001'')]"
  let ?c = "throttled [(''retry-after'', ''soon'')]"
  have a: "parse_header_float decimal_runtime ?a ''retry-after'' = Some (Finite 7)"
    by code_simp
  have b: "parse_header_float decimal_runtime ?b ''retry-after'' = None"
    "parse_header_int decimal_runtime ?b ''x-ratelimit-reset'' = Some 1001"
    by code_simp+
  have c: "parse_header_float decimal_runtime ?c ''retry-after'' = None"
    "parse_header_int decimal_runtime ?c ''x-ratelimit-reset'' = None"
    by code_simp+
  have t: "py_int_of_float (2001 / 2) = 1000"
    by (simp add: py_int_of_float_def)
  have l: "\<bar>1001 - 1000\<bar> < FLOAT_INT_LIMIT"
    by (simp add: FLOAT_INT_LIMIT_def)
  from retry_delay_precedence [of decimal_runtime ?a "2001 / 2" 0]
    retry_delay_precedence [of decimal_runtime ?b "2001 / 2" 0]
    retry_delay_precedence [of decimal_runtime ?c "2001 / 2" 2]
  show ?thesis
    using l by (simp add: a b c t)
qed

text \<open>
  C4 as stated fails where the clock reading is not a whole number of seconds: with the
  reset header 1001 and the clock at 1000.5 the delay is 1, where reset minus now, clamped
  to [0, 5], is 0.5.
\<close>

theorem retry_delay_reset_counterexample:
  "compute_sleep_seconds_for_429 decimal_runtime (2001 / 2)
      (throttled [(''x-ratelimit-reset'', ''1001'')]) 0 = Inr (1, ''X-RateLimit-Reset'')
   \<and> min (max 0 (real_of_int 1001 - 2001 / 2)) 5 = 1 / 2"
proof -
  let ?r = "throttled [(''x-ratelimit-reset'', ''1001'')]"
  have a: "parse_header_float decimal_runtime ?r ''retry-after'' = None"
    "parse_header_int decimal_runtime ?r ''x-ratelimit-reset'' = Some 1001"
    by code_simp+
  have t: "py_int_of_float (2001 / 2) = 1000"
    by (simp add: py_int_of_float_def)
  have l: "py_float_of_int 1 = Some 1"
    by (simp add: py_float_of_int_def FLOAT_INT_LIMIT_def)
  show ?thesis
    by (simp add: compute_sleep_seconds_for_429_def a t l MAX_SLEEP_SECONDS_def)
qed

subsection \<open>Retries on 429\<close>

lemma http_get_Cons:
  "script w = r # rs \<Longrightarrow> http_get w req = Some (w\<lparr>script := rs, requests := requests w @ [req]\<rparr>, r)"
  by (simp add: http_get_def)

lemma upt_0_Suc_map: "map f [0..<Suc k] = f 0 # map (\<lambda>i. f (Suc i)) [0..<k]"
  by (simp only: upt_conv_Cons [OF zero_less_Suc] list.map map_Suc_upt [symmetric] map_map o_def)

lemma retry_while_429_trace:
  assumes "script w = rs @ rest"
    and "\<forall>x \<in> set (butlast (response # rs)). status_code x = 429"
    and "n + length rs \<le> MAX_RETRIES_PER_REQUEST"
    and "status_code (last (response # rs)) \<noteq> 429 \<or> n + length rs = MAX_RETRIES_PER_REQUEST"
    and "\<forall>i < length rs. \<not> isl (compute_sleep_seconds_for_429 rt
            (clock w (length (requests w) + length (sleeps w) + 2 * i)) ((response # rs) ! i) (n + i))"
  shows "\<exists>w'. retry_while_429 rt req w response n = Some (w', Inr (last (response # rs)))
           \<and> script w' = rest
           \<and> clock w' = clock w
           \<and> requests w' = requests w @ replicate (length rs) req
           \<and> sleeps w' = sleeps w @ map (\<lambda>i. fst (projr (compute_sleep_seconds_for_429 rt
                  (clock w (length (requests w) + length (sleeps w) + 2 * i)) ((response # rs) ! i) (n + i))))
                [0..<length rs]"
  using assms
proof (induction rs arbitrary: w response n)
  case Nil
  then show ?case by (subst retry_while_429.simps) auto
next
  case (Cons r rs)
  let ?c = "compute_sleep_seconds_for_429 rt (now w) response n"
  let ?d = "fst (projr ?c)"
  let ?w2 = "(sleep w ?d)\<lparr>script := rs @ rest, requests := requests (sleep w ?d) @ [req]\<rparr>"
  from Cons.prems have c429: "status_code response = 429" and lt: "n < MAX_RETRIES_PER_REQUEST"
    by auto
  from Cons.prems(5) [rule_format, of 0] have "\<not> isl ?c"
    by (simp add: now_def)
  then obtain d s where c: "?c = Inr (d, s)"
    by (cases ?c) auto
  then have d: "?d = d" by simp
  have g: "http_get (sleep w ?d) req = Some (?w2, r)"
    using Cons.prems(1) by (intro http_get_Cons) (simp add: sleep_def)
  have step: "retry_while_429 rt req w response n = retry_while_429 rt req ?w2 r (Suc n)"
    using c429 lt g c by (subst retry_while_429.simps) (simp add: Let_def)
  have no: "\<forall>i < length rs. \<not> isl (compute_sleep_seconds_for_429 rt
            (clock ?w2 (length (requests ?w2) + length (sleeps ?w2) + 2 * i)) ((r # rs) ! i) (Suc n + i))"
  proof (intro allI impI)
    fix i assume "i < length rs"
    with Cons.prems(5) [rule_format, of "Suc i"] show "\<not> isl (compute_sleep_seconds_for_429 rt
            (clock ?w2 (length (requests ?w2) + length (sleeps ?w2) + 2 * i)) ((r # rs) ! i) (Suc n + i))"
      by (simp add: sleep_def)
  qed
  have "\<exists>w'. retry_while_429 rt req ?w2 r (Suc n) = Some (w', Inr (last (r # rs)))
           \<and> script w' = rest
           \<and> clock w' = clock ?w2
           \<and> requests w' = requests ?w2 @ replicate (length rs) req
           \<and> sleeps w' = sleeps ?w2 @ map (\<lambda>i. fst (projr (compute_sleep_seconds_for_429 rt
                  (clock ?w2 (length (requests ?w2) + length (sleeps ?w2) + 2 * i)) ((r # rs) ! i) (Suc n + i))))
                [0..<length rs]"
    using Cons.prems(1-4) no by (intro Cons.IH) (auto simp: sleep_def)
  then obtain w' where w': "retry_while_429 rt req ?w2 r (Suc n) = Some (w', Inr (last (r # rs)))"
    "script w' = rest" "clock w' = clock ?w2" "requests w' = requests ?w2 @ replicate (length rs) req"
    "sleeps w' = sleeps ?w2 @ map (\<lambda>i. fst (projr (compute_sleep_seconds_for_429 rt
                  (clock ?w2 (length (requests ?w2) + length (sleeps ?w2) + 2 * i)) ((r # rs) ! i) (Suc n + i))))
                [0..<length rs]"
    by blast
  show ?case
    apply (rule exI [of _ w'])
    using w' step
    by (simp add: upt_0_Suc_map sleep_def now_def replicate_app_Cons_same del: upt_Suc)
qed

lemma retry_while_429_ends:
  assumes "script w = rs @ rest"
    and "\<forall>x \<in> set (butlast (response # rs)). status_code x = 429"
    and "n + length rs \<le> MAX_RETRIES_PER_REQUEST"
    and "status_code (last (response # rs)) \<noteq> 429 \<or> n + length rs = MAX_RETRIES_PER_REQUEST"
  shows "\<exists>w' out. retry_while_429 rt req w response n = Some (w', out)
           \<and> (out = Inl (OverflowError ''int too large to convert to float'')
                \<or> out = Inr (last (response # rs)))"
  using assms
proof (induction rs arbitrary: w response n)
  case Nil
  then show ?case by (subst retry_while_429.simps) auto
next
  case (Cons r rs)
  let ?c = "compute_sleep_seconds_for_429 rt (now w) response n"
  from Cons.prems have c429: "status_code response = 429" and lt: "n < MAX_RETRIES_PER_REQUEST"
    by auto
  show ?case
  proof (cases ?c)
    case (Inl e)
    from compute_sleep_Inl [OF Inl] Inl c429 lt show ?thesis
      by (subst retry_while_429.simps) simp
  next
    case (Inr ds)
    obtain d s where ds: "ds = (d, s)" by (cases ds)
    let ?w2 = "(sleep w d)\<lparr>script := rs @ rest, requests := requests (sleep w d) @ [req]\<rparr>"
    have g: "http_get (sleep w d) req = Some (?w2, r)"
      using Cons.prems(1) by (intro http_get_Cons) (simp add: sleep_def)
    have step: "retry_while_429 rt req w response n = retry_while_429 rt req ?w2 r (Suc n)"
      using c429 lt g Inr ds by (subst retry_while_429.simps) (simp add: Let_def)
    have "\<exists>w' out. retry_while_429 rt req ?w2 r (Suc n) = Some (w', out)
           \<and> (out = Inl (OverflowError ''int too large to convert to float'')
                \<or> out = Inr (last (r # rs)))"
      using Cons.prems by (intro Cons.IH) (auto simp: sleep_def)
    with step show ?thesis by simp
  qed
qed

lemma gate_frame:
  assumes "proactive_gate w a b = Inr w0"
  shows "script w0 = script w" "requests w0 = requests w" "clock w0 = clock w"
  using assms
  by (auto simp: proactive_gate_def sleep_def Let_def split: option.splits if_splits)

lemma gate_Inl:
  "proactive_gate w a b = Inl e \<Longrightarrow> e = OverflowError ''int too large to convert to float''"
  by (auto simp: proactive_gate_def Let_def split: option.splits if_splits)

lemma gate_no_state [simp]: "proactive_gate w None b = Inr w" "proactive_gate w a None = Inr w"
  by (simp_all add: proactive_gate_def split: option.splits)

lemma page_request_gate_error:
  "proactive_gate w last_remaining last_reset = Inl e
   \<Longrightarrow> page_request rt base w page_token last_remaining last_reset = Some (w, Inl e)"
  by (simp add: page_request_def)

lemma page_request_trace:
  assumes "script w = rs @ r # rest"
    and "\<forall>x \<in> set rs. status_code x = 429"
    and "length rs \<le> MAX_RETRIES_PER_REQUEST"
    and "status_code r \<noteq> 429 \<or> length rs = MAX_RETRIES_PER_REQUEST"
    and "proactive_gate w last_remaining last_reset = Inr w0"
    and "\<forall>i < length rs. \<not> isl (compute_sleep_seconds_for_429 rt
            (clock w (length (requests w) + length (sleeps w0) + 1 + 2 * i)) (rs ! i) i)"
  shows "\<exists>w'. page_request rt base w page_token last_remaining last_reset
               = Some (w', Inr (r, update_rate_state rt r (last_remaining, last_reset)))
           \<and> script w' = rest
           \<and> clock w' = clock w
           \<and> requests w' = requests w @ replicate (Suc (length rs)) (with_page_token base page_token)
           \<and> sleeps w' = sleeps w0
                @ map (\<lambda>i. fst (projr (compute_sleep_seconds_for_429 rt
                         (clock w (length (requests w) + length (sleeps w0) + 1 + 2 * i)) (rs ! i) i)))
                    [0..<length rs]"
proof -
  let ?req = "with_page_token base page_token"
  note gf = gate_frame [OF assms(5)]
  obtain x xs where chain: "rs @ [r] = x # xs"
    by (cases rs) auto
  let ?w1 = "w0\<lparr>script := xs @ rest, requests := requests w0 @ [?req]\<rparr>"
  have g: "http_get w0 ?req = Some (?w1, x)"
    using assms(1) chain by (intro http_get_Cons) (simp add: gf flip: append_Cons append_assoc)
  have len: "length xs = length rs" using chain by (metis length_Cons length_append_singleton nat.inject)
  have bl: "butlast (x # xs) = rs" "last (x # xs) = r"
    using chain by (metis butlast_snoc, metis last_snoc)
  have nth: "(x # xs) ! i = rs ! i" if "i < length rs" for i
    using that chain by (metis nth_append)
  have no: "\<forall>i < length xs. \<not> isl (compute_sleep_seconds_for_429 rt
            (clock ?w1 (length (requests ?w1) + length (sleeps ?w1) + 2 * i)) ((x # xs) ! i) (0 + i))"
    using assms(6) nth len by (simp add: gf)
  have "\<exists>w'. retry_while_429 rt ?req ?w1 x 0 = Some (w', Inr (last (x # xs)))
           \<and> script w' = rest
           \<and> clock w' = clock ?w1
           \<and> requests w' = requests ?w1 @ replicate (length xs) ?req
           \<and> sleeps w' = sleeps ?w1 @ map (\<lambda>i. fst (projr (compute_sleep_seconds_for_429 rt
                  (clock ?w1 (length (requests ?w1) + length (sleeps ?w1) + 2 * i)) ((x # xs) ! i) (0 + i))))
                [0..<length xs]"
    using assms(2-4) bl len no by (intro retry_while_429_trace) auto
  then obtain w' where w': "retry_while_429 rt ?req ?w1 x 0 = Some (w', Inr r)"
    "script w' = rest" "clock w' = clock w"
    "requests w' = requests w @ replicate (Suc (length rs)) ?req"
    "sleeps w' = sleeps w0 @ map (\<lambda>i. fst (projr (compute_sleep_seconds_for_429 rt
                  (clock w (length (requests w) + length (sleeps w0) + 1 + 2 * i)) ((x # xs) ! i) i)))
                [0..<length rs]"
    using bl len by (auto simp: gf replicate_app_Cons_same)
  have m: "map (\<lambda>i. fst (projr (compute_sleep_seconds_for_429 rt
                  (clock w (length (requests w) + length (sleeps w0) + 1 + 2 * i)) ((x # xs) ! i) i)))
                [0..<length rs]
         = map (\<lambda>i. fst (projr (compute_sleep_seconds_for_429 rt
                  (clock w (length (requests w) + length (sleeps w0) + 1 + 2 * i)) (rs ! i) i)))
                [0..<length rs]"
    by (rule map_cong) (auto simp: nth)
  show ?thesis
    apply (rule exI [of _ w'])
    using w' g m assms(5)
    by (simp add: page_request_def request_with_retry_def Let_def)
qed

lemma page_request_ends:
  assumes "script w = rs @ r # rest"
    and "\<forall>x \<in> set rs. status_code x = 429"
    and "length rs \<le> MAX_RETRIES_PER_REQUEST"
    and "status_code r \<noteq> 429 \<or> length rs = MAX_RETRIES_PER_REQUEST"
  shows "\<exists>w' out. page_request rt base w page_token last_remaining last_reset = Some (w', out)
           \<and> (out = Inl (OverflowError ''int too large to convert to float'')
                \<or> out = Inr (r, update_rate_state rt r (last_remaining, last_reset)))"
proof (cases "proactive_gate w last_remaining last_reset")
  case (Inl e)
  from gate_Inl [OF Inl] page_request_gate_error [OF Inl] show ?thesis
    by simp
next
  case (Inr w0)
  let ?req = "with_page_token base page_token"
  note gf = gate_frame [OF Inr]
  obtain x xs where chain: "rs @ [r] = x # xs"
    by (cases rs) auto
  let ?w1 = "w0\<lparr>script := xs @ rest, requests := requests w0 @ [?req]\<rparr>"
  have g: "http_get w0 ?req = Some (?w1, x)"
    using assms(1) chain by (intro http_get_Cons) (simp add: gf flip: append_Cons append_assoc)
  have len: "length xs = length rs" using chain by (metis length_Cons length_append_singleton nat.inject)
  have bl: "butlast (x # xs) = rs" "last (x # xs) = r"
    using chain by (metis butlast_snoc, metis last_snoc)
  have "\<exists>w' out. retry_while_429 rt ?req ?w1 x 0 = Some (w', out)
           \<and> (out = Inl (OverflowError ''int too large to convert to float'')
                \<or> out = Inr (last (x # xs)))"
    using assms(2-4) bl len by (intro retry_while_429_ends [where rest = rest]) auto
  then show ?thesis
    using g Inr bl
    by (auto simp: page_request_def request_with_retry_def Let_def)
qed

lemma foldl_digit_zeros:
  "foldl (\<lambda>acc c. 10 * acc + digit_val c) a (replicate n (CHR ''0'')) = a * 10 ^ n"
  by (induction n arbitrary: a) (simp_all add: digit_val_def)

lemma strip_one_zeros:
  "strip (CHR ''1'' # replicate n (CHR ''0'')) = CHR ''1'' # replicate n (CHR ''0'')"
proof -
  let ?s = "CHR ''1'' # replicate n (CHR ''0'')"
  have sp: "\<not> is_space (CHR ''1'')" "\<not> is_space (CHR ''0'')"
    by (simp_all add: is_space_def)
  have "last ?s \<in> {CHR ''1'', CHR ''0''}"
    by (cases n) auto
  then have "\<not> is_space (hd (rev ?s))"
    using sp by (auto simp: hd_rev simp del: rev.simps)
  then have "dropWhile is_space (rev ?s) = rev ?s"
    by (cases "rev ?s") auto
  then show ?thesis
    using sp by (simp add: strip_def del: rev.simps)
qed

lemma dec_int_one_zeros: "dec_int (CHR ''1'' # replicate n (CHR ''0'')) = Some (10 ^ n)"
proof -
  let ?s = "CHR ''1'' # replicate n (CHR ''0'')"
  have dg: "is_digit (CHR ''1'')" "is_digit (CHR ''0'')"
    by (simp_all add: is_digit_def)
  have one: "digit_val (CHR ''1'') = 1"
    by (simp add: digit_val_def)
  have all: "list_all is_digit ?s"
    using dg by (simp add: list_all_iff)
  have val: "digits_val ?s = 10 ^ n"
    by (simp add: digits_val_def one foldl_digit_zeros)
  have "dec_nat ?s = Some (10 ^ n)"
    using all val by (simp add: dec_nat_def)
  then show ?thesis
    by (simp add: dec_int_def strip_one_zeros del: replicate.simps)
qed

lemma huge_reset_value: "py_int decimal_runtime (strip huge_reset) = Some (10 ^ 309)"
  unfolding huge_reset_def strip_one_zeros
  by (simp add: decimal_runtime_def dec_int_one_zeros del: replicate.simps)

lemma example_base:
  "normalize_symbols (q_symbols example_query) = [''SPY'']"
  "\<not> q_limit example_query < 1" "\<not> q_limit example_query > 10000"
  "\<lparr>url = base_url example_client @ ''/v2/stocks/bars'', params = build_params example_query [''SPY''],
     auth = build_auth_headers example_client\<rparr> = example_request"
proof -
  show "normalize_symbols (q_symbols example_query) = [''SPY'']" by code_simp
  show "\<not> q_limit example_query < 1" "\<not> q_limit example_query > 10000"
    by (simp_all add: example_query_def)
  show "\<lparr>url = base_url example_client @ ''/v2/stocks/bars'', params = build_params example_query [''SPY''],
     auth = build_auth_headers example_client\<rparr> = example_request"
    by (simp add: example_request_def example_client_def)
qed

lemma fetch_stock_bars_example:
  "fetch_stock_bars rt example_client w example_query
   = fetch_loop rt example_request w Map.empty None None None None"
  by (simp add: fetch_stock_bars_def example_base)

text \<open>
  Where every delay computes, a page request whose responses are \<open>rs\<close>, all 429, followed
  by \<open>r\<close>, with at most five in \<open>rs\<close> and \<open>r\<close> either not a 429 or the sixth response, sends
  the same request once per response, sleeps once before each retry, and ends with \<open>r\<close>;
  when \<open>r\<close> is itself a 429 the call raises the ProviderError of the exhausted retries.
\<close>

lemma retries_exhausted:
  assumes "script w = rs @ r # rest"
    and "\<forall>x \<in> set rs. status_code x = 429"
    and "length rs = 5"
    and "status_code r = 429"
    and "proactive_gate w last_remaining last_reset = Inr w0"
    and "\<forall>i < length rs. \<not> isl (compute_sleep_seconds_for_429 rt
            (clock w (length (requests w) + length (sleeps w0) + 1 + 2 * i)) (rs ! i) i)"
  shows "\<exists>w'. fetch_loop rt base w merged_bars cur page_token last_remaining last_reset
               = Some (w', Inl (ProviderError
                        (''API rate limited (429) after 5 retries exhausted: '' @ error_text r)
                        (Some 429)))
           \<and> script w' = rest
           \<and> length (requests w') = length (requests w) + 6
           \<and> length (sleeps w') = length (sleeps w0) + 5"
proof -
  from page_request_trace [of w rs r rest last_remaining last_reset w0 rt base page_token] assms
  obtain w' where w': "page_request rt base w page_token last_remaining last_reset
               = Some (w', Inr (r, update_rate_state rt r (last_remaining, last_reset)))"
    "script w' = rest"
    "requests w' = requests w @ replicate (Suc (length rs)) (with_page_token base page_token)"
    "sleeps w' = sleeps w0
                @ map (\<lambda>i. fst (projr (compute_sleep_seconds_for_429 rt
                         (clock w (length (requests w) + length (sleeps w0) + 1 + 2 * i)) (rs ! i) i)))
                    [0..<length rs]"
    by (auto simp: MAX_RETRIES_PER_REQUEST_def)
  have s5: "str_nat 5 = ''5''" by code_simp
  have "fetch_loop rt base w merged_bars cur page_token last_remaining last_reset
          = Some (w', Inl (ProviderError
                        (''API rate limited (429) after 5 retries exhausted: '' @ error_text r)
                        (Some 429)))"
    using assms(4) w'(1)
    by (subst fetch_loop.simps) (simp add: status_error_def MAX_RETRIES_PER_REQUEST_def s5)
  then show ?thesis
    using w' assms(3) by (intro exI [of _ w']) simp
qed

text \<open>
  C2.  A page request answered with 429 is retried, each retry after one sleep whose
  duration is computed from the attempt index and the headers of that 429, at most five
  times, after which the call raises a ProviderError with status 429.  The code breaks this
  for a 429 that has no usable Retry-After and whose reset header is an integer with no
  float: the delay computation raises \<open>OverflowError\<close>, which its handler for \<open>ValueError\<close> and
  \<open>TypeError\<close> does not catch.  Here the first response is such a 429, with the reset
  \<open>10 ** 309\<close>, and the second a good page: the call ends with the \<open>OverflowError\<close>, having
  sent one request and slept not at all, the good page unread.
\<close>

theorem retry_aborts_on_huge_reset:
  "fetch_stock_bars decimal_runtime example_client
      (world_of [throttled_huge_reset, last_page_no_token] 1000) example_query
   = Some (\<lparr>script = [last_page_no_token], clock = fixed_clock 1000, sleeps = [],
             requests = [example_request]\<rparr>,
           Inl (OverflowError ''int too large to convert to float''))"
proof -
  let ?w = "world_of [throttled_huge_reset, last_page_no_token] 1000"
  let ?w1 = "\<lparr>script = [last_page_no_token], clock = fixed_clock 1000, sleeps = [],
              requests = [example_request]\<rparr> :: nat world"
  have g: "http_get ?w example_request = Some (?w1, throttled_huge_reset)"
    by (simp add: http_get_def world_of_def)
  have st: "status_code throttled_huge_reset = 429"
    by (simp add: throttled_huge_reset_def throttled_def)
  have ra: "parse_header_float decimal_runtime throttled_huge_reset ''retry-after'' = None"
    by (simp add: parse_header_float_def header_get_def throttled_huge_reset_def throttled_def)
  have rs: "parse_header_int decimal_runtime throttled_huge_reset ''x-ratelimit-reset'' = Some (10 ^ 309)"
    by (simp add: parse_header_int_def header_get_def throttled_huge_reset_def throttled_def
          huge_reset_value)
  have t: "now ?w1 = 1000"
    by (simp add: now_def fixed_clock_def)
  have c: "compute_sleep_seconds_for_429 decimal_runtime (now ?w1) throttled_huge_reset 0
           = Inl (OverflowError ''int too large to convert to float'')"
    unfolding t
    by (simp add: compute_sleep_seconds_for_429_def ra rs py_float_of_int_def FLOAT_INT_LIMIT_def
          py_int_of_float_def Let_def)
  have r: "retry_while_429 decimal_runtime example_request ?w1 throttled_huge_reset 0
           = Some (?w1, Inl (OverflowError ''int too large to convert to float''))"
    by (subst retry_while_429.simps) (simp add: st c MAX_RETRIES_PER_REQUEST_def)
  have p: "page_request decimal_runtime example_request ?w None None None
           = Some (?w1, Inl (OverflowError ''int too large to convert to float''))"
    by (simp add: page_request_def request_with_retry_def with_page_token_def g r)
  show ?thesis
    unfolding fetch_stock_bars_example
    by (subst fetch_loop.simps) (simp add: p)
qed

subsection \<open>End of pagination\<close>

lemma page_request_200:
  assumes "script w = r # rest" and "status_code r \<noteq> 429"
    and "proactive_gate w last_remaining last_reset = Inr w0"
  shows "page_request rt base w page_token last_remaining last_reset
         = Some (w0\<lparr>script := rest, requests := requests w @ [with_page_token base page_token]\<rparr>,
                 Inr (r, update_rate_state rt r (last_remaining, last_reset)))"
  using assms(1,2) gate_frame [OF assms(3)]
  by (simp add: page_request_def request_with_retry_def Let_def assms(3)
        http_get_Cons [of _ r rest] retry_while_429.simps [of _ _ _ r])

lemma fetch_loop_gate_error:
  "proactive_gate w last_remaining last_reset = Inl e
   \<Longrightarrow> fetch_loop rt base w merged_bars cur page_token last_remaining last_reset = Some (w, Inl e)"
  by (subst fetch_loop.simps) (simp add: page_request_gate_error)

lemma fetch_loop_step:
  assumes "script w = r # rest" and "status_code r = 200" and "json r = Inr data"
    and "proactive_gate w last_remaining last_reset = Inr w0"
  shows "((next_page_token data = None \<or> next_page_token data = Some []) \<longrightarrow>
           fetch_loop rt base w merged_bars cur page_token last_remaining last_reset
           = Some (w0\<lparr>script := rest, requests := requests w @ [with_page_token base page_token]\<rparr>,
                   Inr \<lparr>br_bars = merge_page merged_bars (page_bars data),
                        br_currency = (if cur = None then page_currency data else cur)\<rparr>))
       \<and> (\<forall>t. next_page_token data = Some t \<and> t \<noteq> [] \<longrightarrow>
           fetch_loop rt base w merged_bars cur page_token last_remaining last_reset
           = fetch_loop rt base
               (w0\<lparr>script := rest, requests := requests w @ [with_page_token base page_token]\<rparr>)
               (merge_page merged_bars (page_bars data))
               (if cur = None then page_currency data else cur)
               (Some t)
               (fst (update_rate_state rt r (last_remaining, last_reset)))
               (snd (update_rate_state rt r (last_remaining, last_reset))))"
proof -
  have p: "page_request rt base w page_token last_remaining last_reset
         = Some (w0\<lparr>script := rest, requests := requests w @ [with_page_token base page_token]\<rparr>,
                 Inr (r, update_rate_state rt r (last_remaining, last_reset)))"
    using assms by (intro page_request_200) auto
  show ?thesis
    using assms(2,3)
    by (subst (1 2) fetch_loop.simps [of rt base w]) (auto simp: p Let_def)
qed

lemma merge_page_SPY: "merge_page Map.empty [(''SPY'', [101::nat])] = [''SPY'' \<mapsto> [101]]"
  by (simp add: merge_page_def merge_symbol_def)

text \<open>
  C6 (as amended).  For a page answered with status 200 and a JSON payload, the gate
  before its request having let the request through: an empty-string token and an absent
  token give the same result, the loop ends with this page, and no request is sent beyond
  the one that produced it (the responses left in the script stay unread); with a
  non-empty token the loop goes on to the next round with that token.  (Where the gate
  raises, no request is sent and the page is never received.)
\<close>

theorem empty_token_ends_pagination:
  assumes "script w = r # rest" and "status_code r = 200" and "json r = Inr data"
  shows "(\<forall>w0. proactive_gate w last_remaining last_reset = Inr w0 \<longrightarrow>
           ((next_page_token data = None \<or> next_page_token data = Some []) \<longrightarrow>
              fetch_loop rt base w merged_bars cur page_token last_remaining last_reset
              = Some (w0\<lparr>script := rest, requests := requests w @ [with_page_token base page_token]\<rparr>,
                      Inr \<lparr>br_bars = merge_page merged_bars (page_bars data),
                           br_currency = (if cur = None then page_currency data else cur)\<rparr>))
         \<and> (\<forall>t. next_page_token data = Some t \<and> t \<noteq> [] \<longrightarrow>
              fetch_loop rt base w merged_bars cur page_token last_remaining last_reset
              = fetch_loop rt base
                  (w0\<lparr>script := rest, requests := requests w @ [with_page_token base page_token]\<rparr>)
                  (merge_page merged_bars (page_bars data))
                  (if cur = None then page_currency data else cur)
                  (Some t)
                  (fst (update_rate_state rt r (last_remaining, last_reset)))
                  (snd (update_rate_state rt r (last_remaining, last_reset)))))
       \<and> (\<forall>e. proactive_gate w last_remaining last_reset = Inl e \<longrightarrow>
            fetch_loop rt base w merged_bars cur page_token last_remaining last_reset = Some (w, Inl e))"
  using fetch_loop_step [OF assms] fetch_loop_gate_error by blast

text \<open>Both forms of the last page, each followed by a response that is never asked for.\<close>

theorem empty_token_ends_pagination_witness:
  "fetch_loop decimal_runtime example_request (world_of [last_page_empty_token, unread_page] 1000)
      Map.empty None None None None
   = Some (\<lparr>script = [unread_page], clock = fixed_clock 1000, sleeps = [], requests = [example_request]\<rparr>,
           Inr \<lparr>br_bars = [''SPY'' \<mapsto> [101]], br_currency = None\<rparr>)
   \<and> fetch_loop decimal_runtime example_request (world_of [last_page_no_token, unread_page] 1000)
      Map.empty None None None None
   = Some (\<lparr>script = [unread_page], clock = fixed_clock 1000, sleeps = [], requests = [example_request]\<rparr>,
           Inr \<lparr>br_bars = [''SPY'' \<mapsto> [101]], br_currency = None\<rparr>)"
proof -
  have a: "script (world_of [last_page_empty_token, unread_page] 1000) = last_page_empty_token # [unread_page]"
    "script (world_of [last_page_no_token, unread_page] 1000) = last_page_no_token # [unread_page]"
    by (simp_all add: world_of_def)
  have b: "status_code last_page_empty_token = 200" "status_code last_page_no_token = 200"
    by (simp_all add: last_page_empty_token_def last_page_no_token_def page_def)
  have c: "json last_page_empty_token = Inr \<lparr>page_bars = [(''SPY'', [101])], page_currency = None, next_page_token = Some []\<rparr>"
    "json last_page_no_token = Inr \<lparr>page_bars = [(''SPY'', [101])], page_currency = None, next_page_token = None\<rparr>"
    by (simp_all add: last_page_empty_token_def last_page_no_token_def page_def)
  from empty_token_ends_pagination [OF a(1) b(1) c(1), of None None decimal_runtime example_request Map.empty None None]
    empty_token_ends_pagination [OF a(2) b(2) c(2), of None None decimal_runtime example_request Map.empty None None]
  show ?thesis
    by (simp add: with_page_token_def world_of_def merge_page_SPY)
qed

text \<open>
  C6 as stated asks for exactly one more request after the page with the empty token.  The
  call sends one request in all, the one that produced that page, and leaves the next
  response unread.
\<close>

theorem empty_token_extra_request_counterexample:
  "length (requests (fst (the (fetch_stock_bars decimal_runtime example_client
      (world_of [last_page_empty_token, unread_page] 1000) example_query)))) = 1
   \<and> script (fst (the (fetch_stock_bars decimal_runtime example_client
      (world_of [last_page_empty_token, unread_page] 1000) example_query))) = [unread_page]"
proof -
  let ?w = "world_of [last_page_empty_token, unread_page] 1000"
  have a: "script ?w = last_page_empty_token # [unread_page]"
    by (simp_all add: world_of_def)
  have b: "status_code last_page_empty_token = 200" "status_code last_page_empty_token \<noteq> 429"
    by (simp_all add: last_page_empty_token_def page_def)
  have c: "json last_page_empty_token = Inr \<lparr>page_bars = [(''SPY'', [101])], page_currency = None, next_page_token = Some []\<rparr>"
    by (simp_all add: last_page_empty_token_def page_def)
  have g: "proactive_gate ?w None None = Inr ?w"
    by simp
  have p: "page_request decimal_runtime example_request ?w None None None
      = Some (?w\<lparr>script := [unread_page], requests := [example_request]\<rparr>,
          Inr (last_page_empty_token, update_rate_state decimal_runtime last_page_empty_token (None, None)))"
    using page_request_200 [OF a b(2) g, of decimal_runtime example_request None]
    by (simp add: with_page_token_def world_of_def)
  have fl: "fetch_loop decimal_runtime example_request ?w Map.empty None None None None
     = Some (?w\<lparr>script := [unread_page], requests := [example_request]\<rparr>,
             Inr \<lparr>br_bars = merge_page Map.empty [(''SPY'', [101])], br_currency = None\<rparr>)"
    by (subst fetch_loop.simps) (simp add: p b c)
  show ?thesis
    unfolding fetch_stock_bars_example by (simp add: fl)
qed

subsection \<open>Proactive throttle\<close>

text \<open>
  The gate on a reset time that has a float: with a remaining quota of at most 1 the wait
  is (reset - now) + 0.25 seconds clamped to [0, 10], and the sleeper is called with it when
  it is positive; with a remaining quota above 1, or with the remaining quota or the reset
  time never observed, the gate does nothing.
\<close>

lemma proactive_gate_in_range:
  "(\<forall>remaining reset. last_remaining = Some remaining \<and> last_reset = Some reset \<and> remaining \<le> 1
        \<and> \<bar>reset\<bar> < FLOAT_INT_LIMIT \<longrightarrow>
      proactive_gate w last_remaining last_reset
        = (let d = max 0 (min (real_of_int reset - now w + 1 / 4) 10)
           in if 0 < d then Inr (w\<lparr>sleeps := sleeps w @ [d]\<rparr>) else Inr w))
   \<and> ((last_remaining = None \<or> last_reset = None \<or> (\<exists>remaining. last_remaining = Some remaining \<and> 1 < remaining)) \<longrightarrow>
      proactive_gate w last_remaining last_reset = Inr w)"
  by (auto simp: proactive_gate_def sleep_def Let_def py_float_of_int_def
        SAFETY_BUFFER_SECONDS_def MAX_PROACTIVE_SLEEP_SECONDS_def split: option.splits)


text \<open>
  C7.  Before a page request, with a remaining quota of at most 1 and a reset time known,
  the client sleeps (reset - now) + 0.25 seconds clamped to [0, 10] and then sends the
  request.  The code breaks this for a carried reset that is an integer with no float:
  \<open>last_reset - self._now()\<close> raises \<open>OverflowError\<close>, and nothing catches it.  Here the first
  page reports a remaining quota of 0 and the reset \<open>10 ** 309\<close> and names a next page:
  where the claim has a sleep of 10 seconds and then the second request, the call ends with
  the \<open>OverflowError\<close>, having slept not at all and sent the first request only.
\<close>

theorem gate_aborts_on_huge_reset:
  "fetch_stock_bars decimal_runtime example_client
      (world_of [first_page_huge_reset, second_page] 1000) example_query
   = Some (\<lparr>script = [second_page], clock = fixed_clock 1000, sleeps = [],
             requests = [example_request]\<rparr>,
           Inl (OverflowError ''int too large to convert to float''))"
proof -
  let ?w = "world_of [first_page_huge_reset, second_page] 1000"
  let ?w1 = "\<lparr>script = [second_page], clock = fixed_clock 1000, sleeps = [],
              requests = [example_request]\<rparr> :: nat world"
  let ?d1 = "\<lparr>page_bars = [(''SPY'', [101::nat])], page_currency = Some ''USD'', next_page_token = Some ''tok1''\<rparr>"
  have p1: "script ?w = first_page_huge_reset # [second_page]" "status_code first_page_huge_reset = 200"
    "json first_page_huge_reset = Inr ?d1"
    by (simp_all add: world_of_def first_page_huge_reset_def page_def)
  have rem: "parse_header_int decimal_runtime first_page_huge_reset ''x-ratelimit-remaining'' = Some 0"
    by (simp add: parse_header_int_def header_get_def first_page_huge_reset_def page_def)
       code_simp
  have res: "parse_header_int decimal_runtime first_page_huge_reset ''x-ratelimit-reset'' = Some (10 ^ 309)"
    by (simp add: parse_header_int_def header_get_def first_page_huge_reset_def page_def
          huge_reset_value)
  have u: "update_rate_state decimal_runtime first_page_huge_reset (None, None) = (Some 0, Some (10 ^ 309))"
    by (simp add: update_rate_state_def parse_rate_limit_headers_def rem res)
  have g0: "proactive_gate ?w None None = Inr ?w"
    by simp
  have s1: "fetch_loop decimal_runtime example_request ?w Map.empty None None None None
        = fetch_loop decimal_runtime example_request ?w1 (merge_page Map.empty [(''SPY'', [101])])
            (Some ''USD'') (Some ''tok1'') (Some 0) (Some (10 ^ 309))"
    using fetch_loop_step [OF p1 g0, of decimal_runtime example_request Map.empty None None]
    by (simp add: u with_page_token_def world_of_def)
  have g1: "proactive_gate ?w1 (Some 0) (Some (10 ^ 309))
            = Inl (OverflowError ''int too large to convert to float'')"
    by (simp add: proactive_gate_def py_float_of_int_def FLOAT_INT_LIMIT_def)
  show ?thesis
    unfolding fetch_stock_bars_example s1
    by (rule fetch_loop_gate_error [OF g1])
qed

subsection \<open>Carried rate state\<close>

text \<open>
  C5 (as amended).  Of the responses to one page request, the one the retry loop ends with
  (the first that is not a 429, or the sixth 429), whatever its status code, has its
  rate-limit headers extracted; each of remaining and reset overwrites the carried value
  when its header is present and parses, and the next page request starts from the state
  so updated.  The 429 responses that were retried do not enter the carried state.  The
  page request reaches that response unless the gate or a delay computation raises
  \<open>OverflowError\<close>, which ends the call.
\<close>

theorem rate_state_from_last_response:
  assumes "script w = rs @ r # rest"
    and "\<forall>x \<in> set rs. status_code x = 429"
    and "length rs \<le> 5"
    and "status_code r \<noteq> 429 \<or> length rs = 5"
  shows "\<exists>w' out. page_request rt base w page_token last_remaining last_reset = Some (w', out)
           \<and> (out = Inl (OverflowError ''int too large to convert to float'')
                \<or> out = Inr (r,
                     (case parse_header_int rt r ''x-ratelimit-remaining'' of
                        None \<Rightarrow> last_remaining | Some v \<Rightarrow> Some v),
                     (case parse_header_int rt r ''x-ratelimit-reset'' of
                        None \<Rightarrow> last_reset | Some v \<Rightarrow> Some v)))
           \<and> ((\<exists>w0. proactive_gate w last_remaining last_reset = Inr w0
                    \<and> (\<forall>i < length rs. \<not> isl (compute_sleep_seconds_for_429 rt
                          (clock w (length (requests w) + length (sleeps w0) + 1 + 2 * i)) (rs ! i) i)))
                \<longrightarrow> out \<noteq> Inl (OverflowError ''int too large to convert to float''))
           \<and> (\<forall>data t. out \<noteq> Inl (OverflowError ''int too large to convert to float'')
                  \<and> status_code r = 200 \<and> json r = Inr data
                  \<and> next_page_token data = Some t \<and> t \<noteq> [] \<longrightarrow>
                fetch_loop rt base w merged_bars cur page_token last_remaining last_reset
                = fetch_loop rt base w' (merge_page merged_bars (page_bars data))
                    (if cur = None then page_currency data else cur) (Some t)
                    (case parse_header_int rt r ''x-ratelimit-remaining'' of
                       None \<Rightarrow> last_remaining | Some v \<Rightarrow> Some v)
                    (case parse_header_int rt r ''x-ratelimit-reset'' of
                       None \<Rightarrow> last_reset | Some v \<Rightarrow> Some v))"
proof -
  have u: "update_rate_state rt r (last_remaining, last_reset)
           = ((case parse_header_int rt r ''x-ratelimit-remaining'' of
                      None \<Rightarrow> last_remaining | Some v \<Rightarrow> Some v),
              (case parse_header_int rt r ''x-ratelimit-reset'' of
                      None \<Rightarrow> last_reset | Some v \<Rightarrow> Some v))"
    by (simp add: update_rate_state_def parse_rate_limit_headers_def split: option.splits)
  from page_request_ends [of w rs r rest rt base page_token last_remaining last_reset] assms
  obtain w' out where w': "page_request rt base w page_token last_remaining last_reset = Some (w', out)"
    and out: "out = Inl (OverflowError ''int too large to convert to float'')
              \<or> out = Inr (r, update_rate_state rt r (last_remaining, last_reset))"
    by (auto simp: MAX_RETRIES_PER_REQUEST_def)
  have ok: "out \<noteq> Inl (OverflowError ''int too large to convert to float'')"
    if "proactive_gate w last_remaining last_reset = Inr w0"
      and "\<forall>i < length rs. \<not> isl (compute_sleep_seconds_for_429 rt
              (clock w (length (requests w) + length (sleeps w0) + 1 + 2 * i)) (rs ! i) i)"
    for w0
    using page_request_trace [of w rs r rest last_remaining last_reset w0 rt base page_token]
      assms that w'
    by (auto simp: MAX_RETRIES_PER_REQUEST_def)
  have cont: "fetch_loop rt base w merged_bars cur page_token last_remaining last_reset
                = fetch_loop rt base w' (merge_page merged_bars (page_bars data))
                    (if cur = None then page_currency data else cur) (Some t)
                    (case parse_header_int rt r ''x-ratelimit-remaining'' of
                       None \<Rightarrow> last_remaining | Some v \<Rightarrow> Some v)
                    (case parse_header_int rt r ''x-ratelimit-reset'' of
                       None \<Rightarrow> last_reset | Some v \<Rightarrow> Some v)"
    if "out \<noteq> Inl (OverflowError ''int too large to convert to float'')"
      and "status_code r = 200" and "json r = Inr data"
      and "next_page_token data = Some t" and "t \<noteq> []"
    for data t
  proof -
    from that(1) out have o: "out = Inr (r, update_rate_state rt r (last_remaining, last_reset))"
      by simp
    show ?thesis
      by (subst fetch_loop.simps [of rt base w]) (simp add: w' o that(2-5) u Let_def)
  qed
  show ?thesis
    apply (rule exI [of _ w'], rule exI [of _ out])
    using w' out ok cont unfolding u by blast
qed

text \<open>A 429 that reports remaining 0 and reset 1001, then a page without rate-limit headers:
  the next round starts with no rate state.\<close>

theorem rate_state_from_last_response_witness:
  "\<exists>w'. page_request decimal_runtime example_request
          (world_of [throttled_with_quota, first_page_no_headers, unread_page] 1000) None None None
        = Some (w', Inr (first_page_no_headers, None, None))
      \<and> fetch_loop decimal_runtime example_request
          (world_of [throttled_with_quota, first_page_no_headers, unread_page] 1000)
          Map.empty None None None None
        = fetch_loop decimal_runtime example_request w' [''SPY'' \<mapsto> [101]] None (Some ''tok1'') None None"
proof -
  let ?w = "world_of [throttled_with_quota, first_page_no_headers, unread_page] 1000"
  have a: "script ?w = [throttled_with_quota] @ first_page_no_headers # [unread_page]"
    by (simp add: world_of_def)
  have b: "\<forall>x \<in> set [throttled_with_quota]. status_code x = 429"
    by (simp add: throttled_with_quota_def throttled_def)
  have c: "length [throttled_with_quota] \<le> 5"
    "status_code first_page_no_headers \<noteq> 429 \<or> length [throttled_with_quota] = 5"
    by (simp_all add: first_page_no_headers_def page_def)
  have h: "parse_header_int decimal_runtime first_page_no_headers ''x-ratelimit-remaining'' = None"
    "parse_header_int decimal_runtime first_page_no_headers ''x-ratelimit-reset'' = None"
    by (simp_all add: parse_header_int_def header_get_def first_page_no_headers_def page_def)
  have d: "status_code first_page_no_headers = 200"
    "json first_page_no_headers = Inr \<lparr>page_bars = [(''SPY'', [101])], page_currency = None, next_page_token = Some ''tok1''\<rparr>"
    by (simp_all add: first_page_no_headers_def page_def)
  have e: "compute_sleep_seconds_for_429 decimal_runtime t throttled_with_quota 0 = Inr (0, ''Retry-After'')" for t
    by code_simp
  from rate_state_from_last_response [OF a b c, of decimal_runtime example_request None None None Map.empty None]
  show ?thesis
    by (auto simp: h d e merge_page_SPY)
qed

text \<open>
  C5 as stated has the retried 429 response overwrite the carried state.  On the same
  responses the carried state after the page is still empty, where capturing every
  response gives remaining 0 and reset 1001.
\<close>

theorem rate_state_429_not_captured_counterexample:
  "map_option snd (page_request decimal_runtime example_request
      (world_of [throttled_with_quota, first_page_no_headers, unread_page] 1000) None None None)
     = Some (Inr (first_page_no_headers, None, None))
   \<and> rate_state_every_response decimal_runtime [throttled_with_quota, first_page_no_headers] (None, None)
     = (Some 0, Some 1001)"
proof -
  let ?w = "world_of [throttled_with_quota, first_page_no_headers, unread_page] 1000"
  have a: "script ?w = [throttled_with_quota] @ first_page_no_headers # [unread_page]"
    by (simp add: world_of_def)
  have b: "\<forall>x \<in> set [throttled_with_quota]. status_code x = 429"
    by (simp add: throttled_with_quota_def throttled_def)
  have c: "length [throttled_with_quota] \<le> MAX_RETRIES_PER_REQUEST"
    "status_code first_page_no_headers \<noteq> 429 \<or> length [throttled_with_quota] = MAX_RETRIES_PER_REQUEST"
    by (simp_all add: first_page_no_headers_def page_def MAX_RETRIES_PER_REQUEST_def)
  have l: "update_rate_state decimal_runtime first_page_no_headers st = st" for st
    by (simp add: update_rate_state_def parse_rate_limit_headers_def parse_header_int_def header_get_def
          first_page_no_headers_def page_def)
  have r: "update_rate_state decimal_runtime throttled_with_quota (None, None) = (Some 0, Some 1001)"
    by code_simp
  have g: "proactive_gate ?w None None = Inr ?w"
    by simp
  have e: "compute_sleep_seconds_for_429 decimal_runtime t throttled_with_quota 0 = Inr (0, ''Retry-After'')" for t
    by code_simp
  have n: "\<forall>i < length [throttled_with_quota]. \<not> isl (compute_sleep_seconds_for_429 decimal_runtime
            (clock ?w (length (requests ?w) + length (sleeps ?w) + 1 + 2 * i)) ([throttled_with_quota] ! i) i)"
    by (simp add: e)
  from page_request_trace [OF a b c g n, of example_request None]
  show ?thesis
    by (auto simp: rate_state_every_response_def l r)
qed

subsection \<open>Merging pages\<close>










section \<open>Properties of sorting\<close>

lemma is_argsort_mset: "is_argsort indexer keys \<Longrightarrow> mset indexer = mset [0..<length keys]"
proof -
  assume "is_argsort indexer keys"
  then have "mset (sort indexer) = mset [0..<length keys]"
    by (simp add: is_argsort_def)
  then show ?thesis by simp
qed

lemma is_argsort_in_range: "is_argsort indexer keys \<Longrightarrow> i \<in> set indexer \<Longrightarrow> i < length keys"
proof -
  assume a: "is_argsort indexer keys" and i: "i \<in> set indexer"
  from a have "set (sort indexer) = set [0..<length keys]"
    by (simp add: is_argsort_def)
  with i show ?thesis by simp
qed

lemma take_rows_argsort:
  assumes "is_argsort indexer keys" and "length frame = length keys"
  shows "take_rows indexer frame = map (\<lambda>i. frame ! i) indexer"
    and "mset (take_rows indexer frame) = mset frame"
proof -
  have "filter (\<lambda>i. i < length frame) indexer = indexer"
    using is_argsort_in_range [OF assms(1)] assms(2) by (simp add: filter_id_conv)
  then show t: "take_rows indexer frame = map (\<lambda>i. frame ! i) indexer"
    by (simp add: take_rows_def)
  have "mset (map (\<lambda>i. frame ! i) indexer) = image_mset (\<lambda>i. frame ! i) (mset indexer)"
    by simp
  also have "\<dots> = image_mset (\<lambda>i. frame ! i) (mset [0..<length frame])"
    using is_argsort_mset [OF assms(1)] assms(2) by simp
  also have "\<dots> = mset (map (\<lambda>i. frame ! i) [0..<length frame])"
    by simp
  also have "\<dots> = mset frame"
    by (simp only: map_nth)
  finally show "mset (take_rows indexer frame) = mset frame"
    by (simp only: t)
qed

lemma take_rows_Nil [simp]: "take_rows indexer [] = []"
  by (simp add: take_rows_def)

lemma sorted_take_rows:
  assumes "is_argsort indexer (map k frame)"
  shows "sorted (map k (take_rows indexer frame))"
proof -
  have "take_rows indexer frame = map (\<lambda>i. frame ! i) indexer"
    using assms by (rule take_rows_argsort(1)) simp
  then have "map k (take_rows indexer frame) = map (\<lambda>i. k (frame ! i)) indexer"
    by (simp add: o_def)
  also have "\<dots> = map (\<lambda>i. map k frame ! i) indexer"
    using is_argsort_in_range [OF assms] by (intro map_cong) auto
  finally show ?thesis
    using assms by (simp add: is_argsort_def)
qed

lemma zip_index_key:
  assumes "p \<in> set (zip [0..<length keys] keys)"
  shows "keys ! fst p = snd p"
proof -
  from assms obtain i where "i < length keys" "p = ([0..<length keys] ! i, keys ! i)"
    by (auto simp: set_zip)
  then show ?thesis by simp
qed

lemma indexer_of_sorted_pairs:
  assumes "mset ps = mset (zip [0..<length keys] keys)"
    and "sorted (map snd ps)"
  shows "is_argsort (map fst ps) keys"
proof -
  have z: "map fst (zip [0..<length keys] keys) = [0..<length keys]"
    by (rule map_fst_zip) simp
  have "mset (map fst ps) = image_mset fst (mset ps)"
    by simp
  also have "\<dots> = mset (map fst (zip [0..<length keys] keys))"
    by (simp only: assms(1) mset_map)
  finally have m: "mset [0..<length keys] = mset (map fst ps)"
    by (simp only: z)
  have "sorted [0..<length keys]" by simp
  with m have s: "sort (map fst ps) = [0..<length keys]"
    by (rule properties_for_sort)
  have "set ps = set (zip [0..<length keys] keys)"
    using assms(1) by (rule mset_eq_setD)
  then have "keys ! fst p = snd p" if "p \<in> set ps" for p
    using that zip_index_key by blast
  then have "map (\<lambda>i. keys ! i) (map fst ps) = map snd ps"
    by simp
  with assms(2) have "sorted (map (\<lambda>i. keys ! i) (map fst ps))"
    by (simp only:)
  with s show ?thesis
    unfolding is_argsort_def by (rule conjI)
qed

text \<open>The stable sort and the sort that reverses ties, used in the examples, both return
  an indexer of the kind assumed, for every key column: the assumption on the sort holds of
  a sort for every table.\<close>

lemma stable_argsort_is_argsort: "is_argsort (stable_argsort keys) keys"
  unfolding stable_argsort_def
  by (rule indexer_of_sorted_pairs) simp_all

lemma sorted_rev_neg:
  fixes xs :: "int list"
  shows "sorted (map uminus xs) \<Longrightarrow> sorted (rev xs)"
  by (induction xs) (auto simp: sorted_append)

lemma reversing_argsort_is_argsort: "is_argsort (reversing_argsort keys) keys"
proof -
  let ?ps = "sort_key (\<lambda>ik. - snd ik) (zip [0..<length keys] keys)"
  have m: "mset (rev ?ps) = mset (zip [0..<length keys] keys)" by simp
  have "sorted (map (\<lambda>ik. - snd ik) ?ps)" by (rule sorted_sort_key)
  then have "sorted (map uminus (map snd ?ps))" by (simp add: o_def)
  then have "sorted (rev (map snd ?ps))" by (rule sorted_rev_neg)
  then have "sorted (map snd (rev ?ps))" by (simp only: rev_map)
  with m have "is_argsort (map fst (rev ?ps)) keys"
    by (rule indexer_of_sorted_pairs)
  then show ?thesis
    by (simp only: reversing_argsort_def rev_map)
qed

section \<open>Properties of the validator\<close>

subsection \<open>Non-monotonic timestamps\<close>

lemma set_unique [simp]: "set (unique xs) = set xs"
  by (induction xs rule: unique.induct) auto

lemma distinct_unique [simp]: "distinct (unique xs)"
  by (induction xs rule: unique.induct) auto

lemma map_snd_labelled [simp]: "map snd (labelled df) = df"
  by (simp add: labelled_def)

lemma map_fst_labelled [simp]: "map fst (labelled df) = [0..<length df]"
  by (simp add: labelled_def)

lemma map_snd_filter_snd:
  "map snd (filter (\<lambda>ir. P (snd ir)) xs) = filter P (map snd xs)"
  by (induction xs) auto

lemma zip_tl_split: "(p, c) \<in> set (zip ys (tl ys)) \<Longrightarrow> \<exists>us vs. ys = us @ p # c # vs"
proof (induction ys)
  case Nil
  then show ?case by simp
next
  case (Cons y ys)
  show ?case
  proof (cases ys)
    case Nil
    with Cons.prems show ?thesis by simp
  next
    case ys: (Cons z zs)
    with Cons.prems consider "p = y \<and> c = z" | "(p, c) \<in> set (zip ys (tl ys))"
      by auto
    then show ?thesis
    proof cases
      case 1
      with ys have "y # ys = [] @ p # c # zs" by simp
      then show ?thesis by blast
    next
      case 2
      from Cons.IH [OF 2] obtain us vs where "ys = us @ p # c # vs" by blast
      then have "y # ys = (y # us) @ p # c # vs" by simp
      then show ?thesis by blast
    qed
  qed
qed

lemma sorted_wrt_adjacent: "sorted_wrt R ys \<Longrightarrow> (p, c) \<in> set (zip ys (tl ys)) \<Longrightarrow> R p c"
  by (auto dest!: zip_tl_split simp: sorted_wrt_append)

lemma zip_tl_map: "zip (map f xs) (tl (map f xs)) = map (map_prod f f) (zip xs (tl xs))"
  unfolding map_tl [symmetric] zip_map_map
  by (simp add: map_prod_def)

lemma zip_tl_short: "\<not> 1 < length L \<Longrightarrow> zip L (tl L) = []"
  by (cases L) auto

lemma descending_distinct: "sorted_wrt (\<lambda>a b. b < a) (xs :: int list) \<Longrightarrow> distinct xs"
  by (induction xs) auto

text \<open>Sorted timestamps: no two are the same, or the first adjacent pair that does not
  ascend is the least repeated timestamp, twice.\<close>

lemma sorted_distinct_no_violation:
  fixes xs :: "int list"
  assumes "sorted xs" and "distinct xs"
  shows "filter (\<lambda>pc. snd pc - fst pc \<le> 0) (zip xs (tl xs)) = []"
proof -
  from assms have "sorted_wrt (<) xs"
    by (simp add: strict_sorted_iff)
  then have "p < c" if "(p, c) \<in> set (zip xs (tl xs))" for p c
    using that by (rule sorted_wrt_adjacent)
  then show ?thesis
    by (fastforce simp: filter_empty_conv)
qed

lemma count_list_pos_mem: "0 < count_list xs x \<Longrightarrow> x \<in> set xs"
  by (metis count_notin not_gr_zero)

lemma sorted_first_repeat:
  fixes xs :: "int list"
  assumes "sorted xs" and "\<not> distinct xs"
  shows "\<exists>t rest. filter (\<lambda>pc. snd pc - fst pc \<le> 0) (zip xs (tl xs)) = (t, t) # rest
           \<and> 1 < count_list xs t \<and> (\<forall>u. 1 < count_list xs u \<longrightarrow> t \<le> u)"
  using assms
proof (induction xs)
  case Nil
  then show ?case by simp
next
  case (Cons x ys)
  show ?case
  proof (cases ys)
    case Nil
    with Cons.prems show ?thesis by simp
  next
    case ys: (Cons y zs)
    from Cons.prems(1) have le: "\<forall>z \<in> set ys. x \<le> z" and srt: "sorted ys"
      by simp_all
    show ?thesis
    proof (cases "x = y")
      case True
      have "1 < count_list (x # ys) x"
        using True ys by simp
      moreover have "x \<le> u" if "1 < count_list (x # ys) u" for u
      proof -
        from that have "u \<in> set (x # ys)" by (intro count_list_pos_mem) simp
        with le show ?thesis by auto
      qed
      moreover have "\<exists>rest. filter (\<lambda>pc. snd pc - fst pc \<le> 0) (zip (x # ys) (tl (x # ys))) = (x, x) # rest"
        using True ys by simp
      ultimately show ?thesis by blast
    next
      case False
      with le ys have lt: "x < y" by auto
      have nx: "x \<notin> set ys"
      proof
        assume "x \<in> set ys"
        with srt ys have "y \<le> x" by auto
        with lt show False by simp
      qed
      with Cons.prems(2) have "\<not> distinct ys" by simp
      from Cons.IH [OF srt this] obtain t rest where
        f: "filter (\<lambda>pc. snd pc - fst pc \<le> 0) (zip ys (tl ys)) = (t, t) # rest"
        and c: "1 < count_list ys t" and m: "\<forall>u. 1 < count_list ys u \<longrightarrow> t \<le> u"
        by blast
      from c have "t \<in> set ys" by (intro count_list_pos_mem) simp
      with nx have tx: "t \<noteq> x" by auto
      have c0: "count_list ys x = 0" using nx by (simp add: count_notin)
      have "filter (\<lambda>pc. snd pc - fst pc \<le> 0) (zip (x # ys) (tl (x # ys))) = (t, t) # rest"
        using f lt ys by simp
      moreover have "1 < count_list (x # ys) t"
        using c tx by simp
      moreover have "t \<le> u" if "1 < count_list (x # ys) u" for u
        using that m c0 by (cases "u = x") auto
      ultimately show ?thesis by blast
    qed
  qed
qed

lemma least_repeated_eq:
  assumes "1 < count_list xs t" and "\<forall>u. 1 < count_list xs u \<longrightarrow> t \<le> u"
  shows "least_repeated xs = t"
  unfolding least_repeated_def
proof (rule Min_eqI)
  show "finite {t \<in> set xs. 1 < count_list xs t}" by simp
  show "t \<le> y" if "y \<in> {t \<in> set xs. 1 < count_list xs t}" for y
    using that assms(2) by simp
  from assms(1) have "t \<in> set xs" by (intro count_list_pos_mem) simp
  with assms(1) show "t \<in> {t \<in> set xs. 1 < count_list xs t}" by simp
qed

lemma least_repeated_mset:
  assumes "mset xs = mset ys"
  shows "least_repeated xs = least_repeated ys"
proof -
  have "count_list xs t = count_list ys t" for t
    using assms by (metis count_mset)
  moreover have "set xs = set ys"
    using assms by (rule mset_eq_setD)
  ultimately show ?thesis
    by (simp add: least_repeated_def)
qed

lemma symbol_frame_keys:
  "map (\<lambda>ir. ts (snd ir)) (filter (\<lambda>ir. symbol (snd ir) = s) (labelled df))
   = map ts (filter (\<lambda>r. symbol r = s) df)"
proof -
  have "map snd (filter (\<lambda>ir. symbol (snd ir) = s) (labelled df))
        = filter (\<lambda>r. symbol r = s) (map snd (labelled df))"
    by (rule map_snd_filter_snd)
  then have "map ts (map snd (filter (\<lambda>ir. symbol (snd ir) = s) (labelled df)))
        = map ts (filter (\<lambda>r. symbol r = s) df)"
    by simp
  then show ?thesis by (simp add: o_def)
qed

lemma sorted_symbol_frame:
  assumes "is_argsort (argsort (map ts (filter (\<lambda>r. symbol r = s) df)))
             (map ts (filter (\<lambda>r. symbol r = s) df))"
  shows "mset (sort_values_ts argsort (filter (\<lambda>ir. symbol (snd ir) = s) (labelled df)))
         = mset (filter (\<lambda>ir. symbol (snd ir) = s) (labelled df))"
    and "sorted (map (\<lambda>ir. ts (snd ir))
           (sort_values_ts argsort (filter (\<lambda>ir. symbol (snd ir) = s) (labelled df))))"
proof -
  let ?F = "filter (\<lambda>ir. symbol (snd ir) = s) (labelled df)"
  have a: "is_argsort (argsort (map (\<lambda>ir. ts (snd ir)) ?F)) (map (\<lambda>ir. ts (snd ir)) ?F)"
    using assms by (simp only: symbol_frame_keys)
  show "mset (sort_values_ts argsort ?F) = mset ?F"
    unfolding sort_values_ts_def using a by (rule take_rows_argsort(2)) simp
  show "sorted (map (\<lambda>ir. ts (snd ir)) (sort_values_ts argsort ?F))"
    unfolding sort_values_ts_def using a by (rule sorted_take_rows)
qed

lemma first_violation_Some:
  assumes "first_violation symbol_df = Some pc"
  shows "pc \<in> set (zip symbol_df (tl symbol_df)) \<and> ts (snd (snd pc)) \<le> ts (snd (fst pc))"
proof -
  from assms obtain rest where
    "filter (\<lambda>pc. ts (snd (snd pc)) - ts (snd (fst pc)) \<le> 0) (zip symbol_df (tl symbol_df)) = pc # rest"
    by (auto simp: first_violation_def split: list.splits)
  then have "pc \<in> set (filter (\<lambda>pc. ts (snd (snd pc)) - ts (snd (fst pc)) \<le> 0) (zip symbol_df (tl symbol_df)))"
    by (metis list.set_intros(1))
  then show ?thesis by simp
qed

lemma violations_of_keys:
  "filter (\<lambda>pc. snd pc - fst pc \<le> 0)
     (zip (map (\<lambda>ir. ts (snd ir)) S) (tl (map (\<lambda>ir. ts (snd ir)) S)))
   = map (map_prod (\<lambda>ir. ts (snd ir)) (\<lambda>ir. ts (snd ir)))
       (filter (\<lambda>pc. ts (snd (snd pc)) - ts (snd (fst pc)) \<le> 0) (zip S (tl S)))"
  by (simp add: zip_tl_map filter_map o_def)

lemma first_violation_sorted:
  assumes "sorted (map (\<lambda>ir. ts (snd ir)) S)"
  shows "(distinct (map (\<lambda>ir. ts (snd ir)) S) \<longrightarrow> first_violation S = None)
       \<and> (\<not> distinct (map (\<lambda>ir. ts (snd ir)) S) \<longrightarrow>
            (\<exists>pc. first_violation S = Some pc
               \<and> ts (snd (fst pc)) = least_repeated (map (\<lambda>ir. ts (snd ir)) S)
               \<and> ts (snd (snd pc)) = least_repeated (map (\<lambda>ir. ts (snd ir)) S)))"
proof (intro conjI impI)
  let ?K = "map (\<lambda>ir. ts (snd ir)) S"
  let ?V = "filter (\<lambda>pc. ts (snd (snd pc)) - ts (snd (fst pc)) \<le> 0) (zip S (tl S))"
  {
    assume "distinct ?K"
    with assms have "filter (\<lambda>pc. snd pc - fst pc \<le> 0) (zip ?K (tl ?K)) = []"
      by (rule sorted_distinct_no_violation)
    then have "?V = []"
      by (simp only: violations_of_keys) simp
    then show "first_violation S = None"
      by (simp add: first_violation_def)
  }
  {
    assume "\<not> distinct ?K"
    with assms obtain t rest where
      f: "filter (\<lambda>pc. snd pc - fst pc \<le> 0) (zip ?K (tl ?K)) = (t, t) # rest"
      and c: "1 < count_list ?K t" and m: "\<forall>u. 1 < count_list ?K u \<longrightarrow> t \<le> u"
      using sorted_first_repeat by blast
    from least_repeated_eq [OF c m] have t: "least_repeated ?K = t" .
    from f have "map (map_prod (\<lambda>ir. ts (snd ir)) (\<lambda>ir. ts (snd ir))) ?V = (t, t) # rest"
      by (simp only: violations_of_keys)
    then obtain pc rest' where v: "?V = pc # rest'"
      and pc: "map_prod (\<lambda>ir. ts (snd ir)) (\<lambda>ir. ts (snd ir)) pc = (t, t)"
      by (cases ?V) auto
    from v have "first_violation S = Some pc"
      by (simp add: first_violation_def)
    moreover from pc have "ts (snd (fst pc)) = t" "ts (snd (snd pc)) = t"
      by (cases pc; simp)+
    ultimately show "\<exists>pc. first_violation S = Some pc
               \<and> ts (snd (fst pc)) = least_repeated ?K
               \<and> ts (snd (snd pc)) = least_repeated ?K"
      using t by simp
  }
qed

lemma non_monotonic_example_alt:
  "non_monotonic_example argsort frame s
   = (case first_violation (sort_values_ts argsort (filter (\<lambda>ir. symbol (snd ir) = s) frame)) of
        None \<Rightarrow> None
      | Some pc \<Rightarrow>
          if 0 < fst (snd pc) then Some (s, ts (snd (fst pc)), ts (snd (snd pc))) else None)"
proof -
  let ?S = "sort_values_ts argsort (filter (\<lambda>ir. symbol (snd ir) = s) frame)"
  show ?thesis
  proof (cases "1 < length ?S")
    case True
    then show ?thesis
      by (simp add: non_monotonic_example_def non_monotonic_of_sorted_def)
  next
    case False
    then have "first_violation ?S = None"
      by (simp add: first_violation_def zip_tl_short)
    with False show ?thesis
      by (simp add: non_monotonic_example_def non_monotonic_of_sorted_def)
  qed
qed

lemma filter_map_filter_key:
  assumes "distinct xs" and "\<And>x y. f x = Some y \<Longrightarrow> fst y = x"
  shows "filter (\<lambda>e. fst e = s) (List.map_filter f xs)
         = (if s \<in> set xs then (case f s of None \<Rightarrow> [] | Some y \<Rightarrow> [y]) else [])"
  using assms(1)
proof (induction xs)
  case Nil
  show ?case by (simp add: List.map_filter_simps)
next
  case (Cons x xs)
  then show ?case
    using assms(2) by (auto simp: List.map_filter_simps split: option.splits)
qed

lemma found_examples:
  "filter (\<lambda>e. fst e = s)
     (non_monotonic (issues (fst (validate_bars_issues argsort df start_date end_date))))
   = (case first_violation (sort_values_ts argsort (filter (\<lambda>ir. symbol (snd ir) = s) (labelled df))) of
        None \<Rightarrow> []
      | Some pc \<Rightarrow>
          if 0 < fst (snd pc) then [(s, ts (snd (fst pc)), ts (snd (snd pc)))] else [])"
proof (cases "s \<in> set (map symbol df)")
  case True
  then have ne: "df \<noteq> []" by auto
  have nm: "non_monotonic (issues (fst (validate_bars_issues argsort df start_date end_date)))
            = List.map_filter (non_monotonic_example argsort (labelled df)) (unique (map symbol df))"
    using ne by (simp add: validate_bars_issues_def Let_def)
  have key: "fst y = x" if "non_monotonic_example argsort (labelled df) x = Some y" for x y
    using that by (auto simp: non_monotonic_example_alt split: option.splits if_splits)
  show ?thesis
    unfolding nm using True
    by (subst filter_map_filter_key) (auto simp: key non_monotonic_example_alt split: option.splits)
next
  case False
  then have e: "filter (\<lambda>ir. symbol (snd ir) = s) (labelled df) = []"
    by (auto simp: filter_empty_conv labelled_def dest!: set_zip_rightD)
  have key: "fst y = x" if "non_monotonic_example argsort (labelled df) x = Some y" for x y
    using that by (auto simp: non_monotonic_example_alt split: option.splits if_splits)
  have "filter (\<lambda>e. fst e = s)
          (non_monotonic (issues (fst (validate_bars_issues argsort df start_date end_date)))) = []"
  proof (cases "df = []")
    case True
    then show ?thesis by (simp add: validate_bars_issues_def empty_issues_def)
  next
    case ne: False
    have nm: "non_monotonic (issues (fst (validate_bars_issues argsort df start_date end_date)))
            = List.map_filter (non_monotonic_example argsort (labelled df)) (unique (map symbol df))"
      using ne by (simp add: validate_bars_issues_def Let_def)
    show ?thesis
      unfolding nm using False
      by (subst filter_map_filter_key) (auto simp: key)
  qed
  then show ?thesis
    by (simp add: e sort_values_ts_def first_violation_def)
qed

lemma labelled_zero: "(0, r) \<in> set (labelled df) \<Longrightarrow> r = hd df"
proof -
  assume "(0, r) \<in> set (labelled df)"
  then obtain i where i: "i < length df" "[0..<length df] ! i = 0" "df ! i = r"
    by (auto simp: labelled_def set_zip)
  then have "i = 0" by simp
  with i show ?thesis by (cases df) auto
qed

text \<open>
  C1 (as amended).  For every table and every symbol, whatever order the sort gives to rows
  with the same timestamp: with the symbol's rows sorted by \<open>ts\<close>, the adjacent pairs whose
  time delta is not positive are the violations, and at most one example is reported for
  the symbol, taken from the first of them.  A symbol whose timestamps are all different
  has no violation and no example; so has a symbol whose rows are strictly descending in
  the table, because they are sorted before they are compared.  A symbol with a repeated
  timestamp has a violation, and the first one is at the least repeated timestamp \<open>t\<close>; its
  example (\<open>t\<close>, \<open>t\<close>) is the one example reported for the symbol whenever the table's first
  row is not one of the symbol's rows stamped \<open>t\<close>.
\<close>

theorem non_monotonic_first_example:
  assumes "\<forall>s \<in> set (map symbol df).
             is_argsort (argsort (map ts (filter (\<lambda>r. symbol r = s) df)))
               (map ts (filter (\<lambda>r. symbol r = s) df))"
  shows "\<forall>s. let tss = map ts (filter (\<lambda>r. symbol r = s) df);
                 t = least_repeated tss;
                 found = filter (\<lambda>e. fst e = s)
                   (non_monotonic (issues (fst (validate_bars_issues argsort df start_date end_date))))
             in found
                = (case first_violation
                     (sort_values_ts argsort (filter (\<lambda>ir. symbol (snd ir) = s) (labelled df))) of
                     None \<Rightarrow> []
                   | Some pc \<Rightarrow>
                       if 0 < fst (snd pc) then [(s, ts (snd (fst pc)), ts (snd (snd pc)))] else [])
              \<and> (distinct tss \<longrightarrow> found = [])
              \<and> (sorted_wrt (\<lambda>a b. b < a) tss \<longrightarrow> found = [])
              \<and> (\<not> distinct tss \<longrightarrow> found = [] \<or> found = [(s, t, t)])
              \<and> (\<not> distinct tss \<and> \<not> (symbol (hd df) = s \<and> ts (hd df) = t) \<longrightarrow> found = [(s, t, t)])"
proof
  fix s
  let ?tss = "map ts (filter (\<lambda>r. symbol r = s) df)"
  let ?F = "filter (\<lambda>ir. symbol (snd ir) = s) (labelled df)"
  let ?S = "sort_values_ts argsort ?F"
  let ?K = "map (\<lambda>ir. ts (snd ir)) ?S"
  let ?found = "filter (\<lambda>e. fst e = s)
                   (non_monotonic (issues (fst (validate_bars_issues argsort df start_date end_date))))"
  have perm: "mset ?S = mset ?F" and srt: "sorted ?K"
  proof -
    show "mset ?S = mset ?F"
    proof (cases "s \<in> set (map symbol df)")
      case True
      with assms show ?thesis by (intro sorted_symbol_frame(1)) auto
    next
      case False
      then have "?F = []"
        by (auto simp: filter_empty_conv labelled_def dest!: set_zip_rightD)
      then show ?thesis by (simp add: sort_values_ts_def)
    qed
    show "sorted ?K"
    proof (cases "s \<in> set (map symbol df)")
      case True
      with assms show ?thesis by (intro sorted_symbol_frame(2)) auto
    next
      case False
      then have "?F = []"
        by (auto simp: filter_empty_conv labelled_def dest!: set_zip_rightD)
      then show ?thesis by (simp add: sort_values_ts_def)
    qed
  qed
  have keys: "mset ?K = mset ?tss"
  proof -
    have "mset ?K = image_mset (\<lambda>ir. ts (snd ir)) (mset ?S)" by simp
    also have "\<dots> = image_mset (\<lambda>ir. ts (snd ir)) (mset ?F)" by (simp only: perm)
    also have "\<dots> = mset (map (\<lambda>ir. ts (snd ir)) ?F)" by simp
    finally show ?thesis by (simp only: symbol_frame_keys)
  qed
  have dist: "distinct ?K \<longleftrightarrow> distinct ?tss"
    using keys by (rule mset_eq_imp_distinct_iff)
  have least: "least_repeated ?K = least_repeated ?tss"
    using keys by (rule least_repeated_mset)
  note fv = first_violation_sorted [OF srt, unfolded dist least]
  note found = found_examples [of s argsort df start_date end_date]
  have a: "?found = []" if "distinct ?tss"
    using that fv found by simp
  have b: "?found = []" if "sorted_wrt (\<lambda>a b. b < a) ?tss"
    using that a descending_distinct by blast
  have c: "?found = [] \<or> ?found = [(s, least_repeated ?tss, least_repeated ?tss)]" if "\<not> distinct ?tss"
  proof -
    from that fv obtain pc where pc: "first_violation ?S = Some pc"
      "ts (snd (fst pc)) = least_repeated ?tss" "ts (snd (snd pc)) = least_repeated ?tss"
      by blast
    with found show ?thesis by (cases "0 < fst (snd pc)") simp_all
  qed
  have d: "?found = [(s, least_repeated ?tss, least_repeated ?tss)]"
    if nd: "\<not> distinct ?tss" and first: "\<not> (symbol (hd df) = s \<and> ts (hd df) = least_repeated ?tss)"
  proof -
    from nd fv obtain pc where pc: "first_violation ?S = Some pc"
      "ts (snd (fst pc)) = least_repeated ?tss" "ts (snd (snd pc)) = least_repeated ?tss"
      by blast
    from first_violation_Some [OF pc(1)] have "(fst pc, snd pc) \<in> set (zip ?S (tl ?S))"
      by simp
    from zip_tl_split [OF this] have "snd pc \<in> set ?S"
      by auto
    then have "snd pc \<in> set ?F"
      using perm [THEN mset_eq_setD] by simp
    then have mem: "snd pc \<in> set (labelled df)" and sym: "symbol (snd (snd pc)) = s"
      by auto
    have "0 < fst (snd pc)"
    proof (rule ccontr)
      assume "\<not> 0 < fst (snd pc)"
      then have "(0, snd (snd pc)) \<in> set (labelled df)"
        using mem by (cases "snd pc") auto
      then have "snd (snd pc) = hd df" by (rule labelled_zero)
      with sym pc(3) first show False by simp
    qed
    with pc found show ?thesis by simp
  qed
  show "let tss = ?tss; t = least_repeated tss; found = ?found
        in found
                = (case first_violation ?S of
                     None \<Rightarrow> []
                   | Some pc \<Rightarrow>
                       if 0 < fst (snd pc) then [(s, ts (snd (fst pc)), ts (snd (snd pc)))] else [])
              \<and> (distinct tss \<longrightarrow> found = [])
              \<and> (sorted_wrt (\<lambda>a b. b < a) tss \<longrightarrow> found = [])
              \<and> (\<not> distinct tss \<longrightarrow> found = [] \<or> found = [(s, t, t)])
              \<and> (\<not> distinct tss \<and> \<not> (symbol (hd df) = s \<and> ts (hd df) = t) \<longrightarrow> found = [(s, t, t)])"
    unfolding Let_def using found a b c d by blast
qed

text \<open>
  On the table where AAPL has the timestamps 3, 1, 3, 1 the least repeated timestamp is 1
  and the table's first row is stamped 3: the one example is (1, 1), under the stable sort
  and under the sort that reverses ties.  The descending rows 2, 1 give none.
\<close>

theorem non_monotonic_first_example_witness:
  "filter (\<lambda>e. fst e = ''AAPL'')
     (non_monotonic (issues (fst (validate_bars_issues stable_argsort repeated_table 0 5))))
   = [(''AAPL'', 1, 1)]
   \<and> filter (\<lambda>e. fst e = ''AAPL'')
       (non_monotonic (issues (fst (validate_bars_issues reversing_argsort repeated_table 0 5))))
     = [(''AAPL'', 1, 1)]
   \<and> filter (\<lambda>e. fst e = ''AAPL'')
       (non_monotonic (issues (fst (validate_bars_issues stable_argsort descending_table 0 5))))
     = []"
proof -
  have h1: "\<forall>s \<in> set (map symbol repeated_table).
             is_argsort (stable_argsort (map ts (filter (\<lambda>r. symbol r = s) repeated_table)))
               (map ts (filter (\<lambda>r. symbol r = s) repeated_table))"
    by code_simp
  have h2: "\<forall>s \<in> set (map symbol repeated_table).
             is_argsort (reversing_argsort (map ts (filter (\<lambda>r. symbol r = s) repeated_table)))
               (map ts (filter (\<lambda>r. symbol r = s) repeated_table))"
    by code_simp
  have h3: "\<forall>s \<in> set (map symbol descending_table).
             is_argsort (stable_argsort (map ts (filter (\<lambda>r. symbol r = s) descending_table)))
               (map ts (filter (\<lambda>r. symbol r = s) descending_table))"
    by code_simp
  have nd: "\<not> distinct (map ts (filter (\<lambda>r. symbol r = ''AAPL'') repeated_table))"
    by code_simp
  have t: "least_repeated (map ts (filter (\<lambda>r. symbol r = ''AAPL'') repeated_table)) = 1"
    by code_simp
  have first: "\<not> (symbol (hd repeated_table) = ''AAPL'' \<and> ts (hd repeated_table) = 1)"
    by code_simp
  have desc: "sorted_wrt (\<lambda>a b. b < a) (map ts (filter (\<lambda>r. symbol r = ''AAPL'') descending_table))"
    by code_simp
  note a = non_monotonic_first_example [OF h1, of 0 5, THEN spec, of "''AAPL''", unfolded Let_def t]
  note b = non_monotonic_first_example [OF h2, of 0 5, THEN spec, of "''AAPL''", unfolded Let_def t]
  note c = non_monotonic_first_example [OF h3, of 0 5, THEN spec, of "''AAPL''", unfolded Let_def]
  from a nd first have "filter (\<lambda>e. fst e = ''AAPL'')
     (non_monotonic (issues (fst (validate_bars_issues stable_argsort repeated_table 0 5))))
   = [(''AAPL'', 1, 1)]"
    by blast
  moreover from b nd first have "filter (\<lambda>e. fst e = ''AAPL'')
     (non_monotonic (issues (fst (validate_bars_issues reversing_argsort repeated_table 0 5))))
   = [(''AAPL'', 1, 1)]"
    by blast
  moreover from c desc have "filter (\<lambda>e. fst e = ''AAPL'')
       (non_monotonic (issues (fst (validate_bars_issues stable_argsort descending_table 0 5))))
     = []"
    by blast
  ultimately show ?thesis by blast
qed

text \<open>
  C1 as stated has a table whose rows are descending for a symbol report exactly one
  example for it.  The rows with timestamps 2, 1 report none (the timestamps differ, so
  every sorting algorithm puts the two rows in the same order).
\<close>

theorem descending_rows_counterexample:
  "non_monotonic (issues (fst (validate_bars_issues stable_argsort descending_table 0 5))) = []
   \<and> non_monotonic (issues (fst (validate_bars_issues reversing_argsort descending_table 0 5))) = []"
  by code_simp

text \<open>
  Where the table's first row is one of the rows at the least repeated timestamp, the order
  the sort gives to the tied rows decides whether the example is reported: the check
  \<open>idx > 0\<close> is made on the index label of the offending row, and drops the example when
  the sort has put the table's first row (label 0) behind its twin.
\<close>

lemma tie_order_decides_example:
  "non_monotonic (issues (fst (validate_bars_issues stable_argsort tied_table 0 5))) = [(''AAPL'', 3, 3)]
   \<and> non_monotonic (issues (fst (validate_bars_issues reversing_argsort tied_table 0 5))) = []"
  by code_simp

subsection \<open>Calendar failure\<close>

text \<open>
  C9.  For a non-empty table and a calendar that fails with the reason \<open>e\<close>,
  \<open>validate_daily_bars\<close> returns the \<open>ok\<close> flag and the report of the structural checks,
  with \<open>e\<close> recorded under \<open>"error"\<close> in the missing-days entry and a missing-days total of
  zero under \<open>"totals"\<close>, and nothing else in that entry.  The flag, the issues and the
  summary are the same whatever the calendar answers.
\<close>

theorem calendar_failure_recorded:
  assumes "df \<noteq> []" and "sessions_in_range start_date end_date = Inl e"
  shows "validate_daily_bars argsort sessions_in_range ny_date df start_date end_date
         = (snd (validate_bars_issues argsort df start_date end_date),
            (fst (validate_bars_issues argsort df start_date end_date))
              \<lparr>missing_days := Some [(''error'', ErrorText e), (''totals'', Totals 0)]\<rparr>)
       \<and> fst (validate_daily_bars argsort sessions_in_range ny_date df start_date end_date)
         = fst (validate_daily_bars argsort other_calendar ny_date df start_date end_date)
       \<and> issues (snd (validate_daily_bars argsort sessions_in_range ny_date df start_date end_date))
         = issues (snd (validate_daily_bars argsort other_calendar ny_date df start_date end_date))
       \<and> summary (snd (validate_daily_bars argsort sessions_in_range ny_date df start_date end_date))
         = summary (snd (validate_daily_bars argsort other_calendar ny_date df start_date end_date))"
  using assms
  by (auto simp: validate_daily_bars_def Let_def split: prod.splits sum.splits)

text \<open>Two daily bars, the second with a high below its close, and a calendar that fails.\<close>

theorem calendar_failure_recorded_witness:
  "validate_daily_bars stable_argsort failing_calendar est_date
      [bar ''AAPL'' 1704171600000000000, (bar ''AAPL'' 1704258000000000000)\<lparr>high := 10\<rparr>] 19723 19727
   = (False,
      \<lparr>summary = \<lparr>symbols_count = 1, bars_count = 2, date_range = (19723, 19727)\<rparr>,
       issues = \<lparr>duplicates = [], non_monotonic = [], ohlc_violations_count = 1,
                 ohlc_violations_samples =
                   [\<lparr>ov_symbol = ''AAPL'', ov_ts = 1704258000000000000, ov_open = 10, ov_high = 10,
                     ov_low = 9, ov_close = 11, ov_issue = ''high < max(open, close)''\<rparr>],
                 volume_violations_count = 0, volume_violations_samples = []\<rparr>,
       missing_days = Some [(''error'', ErrorText ''unknown exchange''), (''totals'', Totals 0)]\<rparr>)"
proof -
  let ?df = "[bar ''AAPL'' 1704171600000000000, (bar ''AAPL'' 1704258000000000000)\<lparr>high := 10\<rparr>]"
  have a: "?df \<noteq> []" by simp
  have b: "failing_calendar 19723 19727 = Inl ''unknown exchange''"
    by (simp add: failing_calendar_def)
  have c: "validate_bars_issues stable_argsort ?df 19723 19727
    = (\<lparr>summary = \<lparr>symbols_count = 1, bars_count = 2, date_range = (19723, 19727)\<rparr>,
       issues = \<lparr>duplicates = [], non_monotonic = [], ohlc_violations_count = 1,
                 ohlc_violations_samples =
                   [\<lparr>ov_symbol = ''AAPL'', ov_ts = 1704258000000000000, ov_open = 10, ov_high = 10,
                     ov_low = 9, ov_close = 11, ov_issue = ''high < max(open, close)''\<rparr>],
                 volume_violations_count = 0, volume_violations_samples = []\<rparr>,
       missing_days = None\<rparr>, False)"
    by code_simp
  from calendar_failure_recorded [where sessions_in_range = failing_calendar and df = ?df
      and start_date = 19723 and end_date = 19727 and ny_date = est_date
      and argsort = stable_argsort, OF a b]
  show ?thesis
    by (simp add: c)
qed

text \<open>
  The missing-days entry is one dict: for a symbol named \<open>totals\<close> the list of its missing
  dates is replaced by the totals.
\<close>

lemma symbol_named_totals:
  "missing_days (snd (validate_daily_bars stable_argsort weekday_calendar est_date
      [bar ''totals'' 1704171600000000000] 19723 19727))
   = Some [(''totals'', Totals 4)]"
  by code_simp

subsection \<open>The input table is left as it was\<close>

lemma alloc_simps [simp]: "alloc st fr = (st @ [fr], length st)"
  by (simp add: alloc_def)

lemma non_monotonic_loop_st_result:
  "a < length st \<Longrightarrow>
   \<exists>new. non_monotonic_loop_st argsort st a syms
          = (st @ new, List.map_filter (non_monotonic_example argsort (f_rows (st ! a))) syms)"
proof (induction syms arbitrary: st)
  case Nil
  show ?case by (simp add: List.map_filter_simps)
next
  case (Cons symb rest)
  let ?sel = "select_frame (\<lambda>ir. symbol (snd ir) = symb) (st ! a)"
  let ?sorted = "sort_frame argsort ?sel"
  let ?st2 = "st @ [?sel, ?sorted]"
  have sel: "df_select st a (\<lambda>ir. symbol (snd ir) = symb) = (st @ [?sel], length st)"
    by (simp add: df_select_def)
  have srt: "df_sort_values_ts argsort (st @ [?sel]) (length st) = (?st2, Suc (length st))"
    by (simp add: df_sort_values_ts_def)
  have rows: "f_rows (?st2 ! Suc (length st))
              = sort_values_ts argsort (filter (\<lambda>ir. symbol (snd ir) = symb) (f_rows (st ! a)))"
    by (simp add: nth_append sort_frame_def select_frame_def sort_values_ts_def Let_def)
  obtain st3 where st3: "st3 = (if 1 < length (f_rows (?st2 ! Suc (length st)))
                           then fst (df_select ?st2 (Suc (length st))
                                       (\<lambda>ir. \<exists>pc \<in> set (zip (f_rows (?st2 ! Suc (length st)))
                                                             (tl (f_rows (?st2 ! Suc (length st))))).
                                                snd pc = ir \<and> ts (snd (snd pc)) - ts (snd (fst pc)) \<le> 0))
                           else ?st2)"
    by blast
  then obtain new3 where new3: "st3 = st @ new3"
    by (cases "1 < length (f_rows (?st2 ! Suc (length st)))") (auto simp: df_select_def)
  with Cons.prems have a3: "a < length st3" "st3 ! a = st ! a"
    by (simp_all add: nth_append)
  from Cons.IH [OF a3(1)] obtain new4 where
    rec: "non_monotonic_loop_st argsort st3 a rest
          = (st3 @ new4, List.map_filter (non_monotonic_example argsort (f_rows (st ! a))) rest)"
    by (auto simp: a3(2))
  have "non_monotonic_loop_st argsort st a (symb # rest)
        = (st @ (new3 @ new4),
           List.map_filter (non_monotonic_example argsort (f_rows (st ! a))) (symb # rest))"
    using rec rows new3 st3
    by (simp add: sel srt Let_def non_monotonic_example_def List.map_filter_simps split: option.splits)
  then show ?case by blast
qed

lemma missing_days_loop_st_result:
  "a < length st \<Longrightarrow>
   \<exists>new. missing_days_loop_st ny_date expected_dates st a syms
          = (st @ new, List.map_filter (missing_days_for ny_date expected_dates (rows_at st a)) syms)"
proof (induction syms arbitrary: st)
  case Nil
  show ?case by (simp add: List.map_filter_simps)
next
  case (Cons symb rest)
  let ?sel = "select_frame (\<lambda>ir. symbol (snd ir) = symb) (st ! a)"
  let ?ny = "?sel\<lparr>f_bar_date := Some (map (\<lambda>ir. ny_date (ts (snd ir))) (f_rows ?sel))\<rparr>"
  let ?st3 = "st @ [?sel, ?ny]"
  have sel: "df_select st a (\<lambda>ir. symbol (snd ir) = symb) = (st @ [?sel], length st)"
    by (simp add: df_select_def)
  have cp: "df_copy (st @ [?sel]) (length st) = (st @ [?sel, ?sel], Suc (length st))"
    by (simp add: df_copy_def)
  have set: "df_set_bar_date (st @ [?sel, ?sel]) (Suc (length st)) ny_date = ?st3"
    by (simp add: df_set_bar_date_def nth_append list_update_append)
  have present: "f_bar_date (?st3 ! Suc (length st))
      = Some (map (\<lambda>r. ny_date (ts r)) (filter (\<lambda>r. symbol r = symb) (rows_at st a)))"
    by (simp add: nth_append select_frame_def rows_at_def map_snd_filter_snd [symmetric] o_def)
  from Cons.prems have a3: "a < length ?st3" "?st3 ! a = st ! a"
    by (simp_all add: nth_append)
  from Cons.IH [OF a3(1)] obtain new4 where
    rec: "missing_days_loop_st ny_date expected_dates ?st3 a rest
          = (?st3 @ new4, List.map_filter (missing_days_for ny_date expected_dates (rows_at st a)) rest)"
    using a3(2) by (auto simp: rows_at_def)
  have "missing_days_loop_st ny_date expected_dates st a (symb # rest)
        = (st @ ([?sel, ?ny] @ new4),
           List.map_filter (missing_days_for ny_date expected_dates (rows_at st a)) (symb # rest))"
    using rec present
    by (simp add: sel cp set Let_def missing_days_for_def List.map_filter_simps)
  then show ?case by blast
qed

lemma select_rows_at:
  "rows_at (s2 @ [select_frame (\<lambda>ir. P (snd ir)) fr]) (length s2) = filter P (map snd (f_rows fr))"
  by (simp add: rows_at_def select_frame_def map_snd_filter_snd)

lemma validate_bars_issues_st_extends:
  assumes "a < length st"
  shows "\<exists>new. fst (validate_bars_issues_st argsort st a start_date end_date) = st @ new"
proof (cases "rows_at st a = []")
  case True
  then show ?thesis by (simp add: validate_bars_issues_st_def)
next
  case False
  let ?dup = "select_frame (\<lambda>ir. is_duplicated (rows_at st a) (snd ir)) (st ! a)"
  let ?st1 = "st @ [?dup]"
  from assms have a1: "a < length ?st1" by simp
  from non_monotonic_loop_st_result [OF a1, of argsort "unique (map symbol (rows_at ?st1 a))"]
  obtain new2 where loop: "non_monotonic_loop_st argsort ?st1 a (unique (map symbol (rows_at ?st1 a)))
      = (?st1 @ new2, List.map_filter (non_monotonic_example argsort (f_rows (?st1 ! a)))
                        (unique (map symbol (rows_at ?st1 a))))"
    by blast
  have "fst (validate_bars_issues_st argsort st a start_date end_date)
        = st @ ([?dup] @ new2 @ [select_frame (\<lambda>ir. negative_volume (snd ir)) ((?st1 @ new2) ! a)])"
    using False loop
    by (simp add: validate_bars_issues_st_def Let_def df_select_def)
  then show ?thesis by blast
qed

lemma validate_bars_issues_st_result:
  assumes "a < length st" and "f_rows (st ! a) = labelled df"
  shows "snd (validate_bars_issues_st argsort st a start_date end_date)
         = validate_bars_issues argsort df start_date end_date"
proof (cases "df = []")
  case True
  with assms(2) show ?thesis
    by (simp add: validate_bars_issues_st_def validate_bars_issues_def rows_at_def)
next
  case False
  from assms(2) have df: "rows_at st a = df" by (simp add: rows_at_def)
  let ?dup = "select_frame (\<lambda>ir. is_duplicated df (snd ir)) (st ! a)"
  let ?st1 = "st @ [?dup]"
  from assms have a1: "a < length ?st1" "?st1 ! a = st ! a" by (simp_all add: nth_append)
  from non_monotonic_loop_st_result [OF a1(1), of argsort "unique (map symbol df)"]
  obtain new2 where loop: "non_monotonic_loop_st argsort ?st1 a (unique (map symbol df))
      = (?st1 @ new2, List.map_filter (non_monotonic_example argsort (labelled df)) (unique (map symbol df)))"
    using a1(2) assms(2) by auto
  let ?st2 = "?st1 @ new2"
  from assms have a2: "?st2 ! a = st ! a" by (simp add: nth_append)
  have r1: "rows_at ?st1 a = df" using a1(2) df by (simp add: rows_at_def)
  have r2: "rows_at ?st2 a = df" using a2 df by (simp add: rows_at_def)
  have d: "rows_at ?st1 (length st) = filter (is_duplicated df) df"
    by (simp only: select_rows_at assms(2) map_snd_labelled)
  have n: "rows_at (?st2 @ [select_frame (\<lambda>ir. negative_volume (snd ir)) (?st2 ! a)]) (length ?st2)
           = filter negative_volume df"
    by (simp only: select_rows_at a2 assms(2) map_snd_labelled)
  have len: "length ?st2 = Suc (length st + length new2)" by simp
  note n' = n [unfolded len]
  show ?thesis
    using False loop
    by (simp add: validate_bars_issues_st_def validate_bars_issues_def Let_def df df_select_def
          r1 r2 d n' find_duplicates_def del: append_assoc)
qed

lemma validate_daily_bars_st_unfold:
  assumes "a < length st"
  shows "\<exists>new. validate_daily_bars_st argsort sessions_in_range ny_date st a start_date end_date
           = (st @ new,
              (case snd (validate_bars_issues_st argsort st a start_date end_date) of
                 (rep, ok) \<Rightarrow>
                   if rows_at st a = []
                   then (True, rep\<lparr>missing_days := Some (dict_set [] ''totals'' (Totals 0))\<rparr>)
                   else (case sessions_in_range start_date end_date of
                           Inr sessions \<Rightarrow>
                             (let missing_days_per_symbol =
                                    List.map_filter (missing_days_for ny_date sessions (rows_at st a))
                                      (unique (map symbol (rows_at st a)));
                                  total = sum_list (map (\<lambda>sd. length (snd sd)) missing_days_per_symbol)
                              in (ok, rep\<lparr>missing_days := Some
                                    (dict_set (map (\<lambda>sd. (fst sd, MissingDates (snd sd))) missing_days_per_symbol)
                                       ''totals'' (Totals total))\<rparr>))
                         | Inl e \<Rightarrow>
                             (ok, rep\<lparr>missing_days := Some
                                (dict_set (dict_set [] ''error'' (ErrorText e)) ''totals'' (Totals 0))\<rparr>))))"
proof -
  obtain st1 rep ok where v: "validate_bars_issues_st argsort st a start_date end_date = (st1, rep, ok)"
    by (cases "validate_bars_issues_st argsort st a start_date end_date") auto
  from validate_bars_issues_st_extends [OF assms, of argsort start_date end_date] v
  obtain new1 where st1: "st1 = st @ new1" by auto
  with assms have a1: "a < length st1" "rows_at st1 a = rows_at st a"
    by (simp_all add: rows_at_def nth_append)
  show ?thesis
  proof (cases "sessions_in_range start_date end_date")
    case (Inl e)
    then show ?thesis
      using v st1 a1(2) by (auto simp: validate_daily_bars_st_def)
  next
    case (Inr sessions)
    from missing_days_loop_st_result [OF a1(1), of ny_date sessions "unique (map symbol (rows_at st a))"]
    obtain new2 where "missing_days_loop_st ny_date sessions st1 a (unique (map symbol (rows_at st a)))
          = (st1 @ new2, List.map_filter (missing_days_for ny_date sessions (rows_at st a))
                           (unique (map symbol (rows_at st a))))"
      using a1(2) by auto
    then have "\<exists>new. validate_daily_bars_st argsort sessions_in_range ny_date st a start_date end_date
           = (st @ new,
              if rows_at st a = []
              then (True, rep\<lparr>missing_days := Some (dict_set [] ''totals'' (Totals 0))\<rparr>)
              else (let missing_days_per_symbol =
                                    List.map_filter (missing_days_for ny_date sessions (rows_at st a))
                                      (unique (map symbol (rows_at st a)));
                        total = sum_list (map (\<lambda>sd. length (snd sd)) missing_days_per_symbol)
                    in (ok, rep\<lparr>missing_days := Some
                                    (dict_set (map (\<lambda>sd. (fst sd, MissingDates (snd sd))) missing_days_per_symbol)
                                       ''totals'' (Totals total))\<rparr>)))"
      using v st1 a1(2) Inr
      by (cases "rows_at st a = []") (auto simp: validate_daily_bars_st_def Let_def)
    then show ?thesis
      using v Inr by (auto simp: Let_def)
  qed
qed

text \<open>
  C10.  For a table at an address of the store, \<open>validate_daily_bars\<close> and
  \<open>validate_weekly_bars\<close> leave the store as it was up to new objects: every frame that
  existed before the call, the input table among them, has the same rows, field values and
  row order after it.  The \<open>bar_date\<close> column is assigned to a copy, at an address that is
  new.  On a table with the index \<open>0, 1, ..\<close> the flag and the report are those of the
  validators defined on row lists above.  All this holds whatever the sorting algorithm is.
\<close>

theorem validators_leave_table:
  assumes "a < length st"
  shows "(\<exists>new. fst (validate_daily_bars_st argsort sessions_in_range ny_date st a start_date end_date) = st @ new)
       \<and> (\<exists>new. fst (validate_weekly_bars_st argsort st a start_date end_date) = st @ new)
       \<and> fst (validate_daily_bars_st argsort sessions_in_range ny_date st a start_date end_date) ! a = st ! a
       \<and> fst (validate_weekly_bars_st argsort st a start_date end_date) ! a = st ! a
       \<and> (\<forall>df. f_rows (st ! a) = labelled df \<longrightarrow>
             snd (validate_daily_bars_st argsort sessions_in_range ny_date st a start_date end_date)
               = validate_daily_bars argsort sessions_in_range ny_date df start_date end_date
           \<and> snd (validate_weekly_bars_st argsort st a start_date end_date)
               = validate_weekly_bars argsort df start_date end_date)"
proof -
  from validate_daily_bars_st_unfold [OF assms, of argsort sessions_in_range ny_date start_date end_date]
  obtain newd where d: "validate_daily_bars_st argsort sessions_in_range ny_date st a start_date end_date
           = (st @ newd,
              (case snd (validate_bars_issues_st argsort st a start_date end_date) of
                 (rep, ok) \<Rightarrow>
                   if rows_at st a = []
                   then (True, rep\<lparr>missing_days := Some (dict_set [] ''totals'' (Totals 0))\<rparr>)
                   else (case sessions_in_range start_date end_date of
                           Inr sessions \<Rightarrow>
                             (let missing_days_per_symbol =
                                    List.map_filter (missing_days_for ny_date sessions (rows_at st a))
                                      (unique (map symbol (rows_at st a)));
                                  total = sum_list (map (\<lambda>sd. length (snd sd)) missing_days_per_symbol)
                              in (ok, rep\<lparr>missing_days := Some
                                    (dict_set (map (\<lambda>sd. (fst sd, MissingDates (snd sd))) missing_days_per_symbol)
                                       ''totals'' (Totals total))\<rparr>))
                         | Inl e \<Rightarrow>
                             (ok, rep\<lparr>missing_days := Some
                                (dict_set (dict_set [] ''error'' (ErrorText e)) ''totals'' (Totals 0))\<rparr>))))"
    by blast
  from validate_bars_issues_st_extends [OF assms, of argsort start_date end_date]
  obtain neww where w: "fst (validate_bars_issues_st argsort st a start_date end_date) = st @ neww"
    by blast
  have wk: "validate_weekly_bars_st argsort st a start_date end_date
      = (st @ neww,
         (case snd (validate_bars_issues_st argsort st a start_date end_date) of
            (rep, ok) \<Rightarrow> (ok, rep\<lparr>missing_days := Some [(''totals'', Totals 0)]\<rparr>)))"
    using w by (auto simp: validate_weekly_bars_st_def split: prod.splits)
  have frame: "fst (validate_daily_bars_st argsort sessions_in_range ny_date st a start_date end_date) = st @ newd"
    "fst (validate_weekly_bars_st argsort st a start_date end_date) = st @ neww"
    by (simp_all add: d wk)
  have same: "snd (validate_daily_bars_st argsort sessions_in_range ny_date st a start_date end_date)
               = validate_daily_bars argsort sessions_in_range ny_date df start_date end_date
           \<and> snd (validate_weekly_bars_st argsort st a start_date end_date)
               = validate_weekly_bars argsort df start_date end_date"
    if "f_rows (st ! a) = labelled df" for df
  proof -
    from that have r: "rows_at st a = df" by (simp add: rows_at_def)
    show ?thesis
      unfolding d wk r validate_bars_issues_st_result [OF assms that]
      by (simp add: validate_daily_bars_def validate_weekly_bars_def)
  qed
  show ?thesis
    using frame same assms by (auto simp: nth_append)
qed

text \<open>A store holding one table of two daily bars: after the daily validation the table
  is at its address unchanged, and of the eight frames then in the store only the last,
  the copy, has a \<open>bar_date\<close> column.\<close>

theorem validators_leave_table_witness:
  "fst (validate_daily_bars_st stable_argsort weekday_calendar est_date example_store 0 19723 19727) ! 0
     = \<lparr>f_rows = labelled example_table, f_bar_date = None\<rparr>
   \<and> fst (validate_weekly_bars_st stable_argsort example_store 0 19723 19727) ! 0
     = \<lparr>f_rows = labelled example_table, f_bar_date = None\<rparr>
   \<and> snd (validate_daily_bars_st stable_argsort weekday_calendar est_date example_store 0 19723 19727)
     = validate_daily_bars stable_argsort weekday_calendar est_date example_table 19723 19727
   \<and> map f_bar_date (fst (validate_daily_bars_st stable_argsort weekday_calendar est_date example_store 0 19723 19727))
     = [None, None, None, None, None, None, None, Some [19724, 19725]]"
proof -
  have a: "0 < length example_store"
    by (simp add: example_store_def)
  have b: "f_rows (example_store ! 0) = labelled example_table"
    "example_store ! 0 = \<lparr>f_rows = labelled example_table, f_bar_date = None\<rparr>"
    by (simp_all add: example_store_def)
  have c: "map f_bar_date (fst (validate_daily_bars_st stable_argsort weekday_calendar est_date example_store 0 19723 19727))
     = [None, None, None, None, None, None, None, Some [19724, 19725]]"
    by code_simp
  from validators_leave_table [OF a, of stable_argsort weekday_calendar est_date 19723 19727] b c
  show ?thesis
    by simp
qed

section \<open>Properties of the resampler\<close>

subsection \<open>Weeks\<close>

lemma DAY_NS_pos: "0 < DAY_NS"
  by (simp add: DAY_NS_def)

lemma WEEK_NS_pos: "0 < WEEK_NS"
  using DAY_NS_pos by (simp add: WEEK_NS_def)

lemma div_bounds:
  fixes W q u :: int
  assumes "0 < W"
  shows "(W * q \<le> u \<and> u < W * q + W) \<longleftrightarrow> u div W = q"
proof
  assume a: "W * q \<le> u \<and> u < W * q + W"
  have "u = W * q + (u - W * q)" by simp
  moreover have "0 \<le> u - W * q" "u - W * q < W" using a by auto
  ultimately show "u div W = q" by (rule int_div_pos_eq)
next
  assume e: "u div W = q"
  have "W * (u div W) + u mod W = u" by simp
  moreover have "0 \<le> u mod W" "u mod W < W" using assms by simp_all
  ultimately have "W * (u div W) \<le> u \<and> u < W * (u div W) + W" by linarith
  then show "W * q \<le> u \<and> u < W * q + W" using e by simp
qed

lemma week_start_div: "week_start t = WEEK_NS * ((t + 3 * DAY_NS) div WEEK_NS) - 3 * DAY_NS"
proof -
  have "WEEK_NS * ((t + 3 * DAY_NS) div WEEK_NS) + (t + 3 * DAY_NS) mod WEEK_NS = t + 3 * DAY_NS"
    by simp
  then show ?thesis
    unfolding week_start_def by linarith
qed

lemma week_start_idem [simp]: "week_start (week_start t) = week_start t"
proof -
  have "(WEEK_NS * ((t + 3 * DAY_NS) div WEEK_NS) - 3 * DAY_NS + 3 * DAY_NS) div WEEK_NS
        = (t + 3 * DAY_NS) div WEEK_NS"
    using WEEK_NS_pos by simp
  then show ?thesis
    by (simp add: week_start_div [of "WEEK_NS * ((t + 3 * DAY_NS) div WEEK_NS) - 3 * DAY_NS"]
          week_start_div [of t])
qed

lemma week_start_bin:
  assumes "week_start m = m"
  shows "(m \<le> t \<and> t < m + WEEK_NS) \<longleftrightarrow> week_start t = m"
proof -
  define q where "q = (m + 3 * DAY_NS) div WEEK_NS"
  from assms have m: "m = WEEK_NS * q - 3 * DAY_NS"
    by (simp add: week_start_div q_def)
  have "(m \<le> t \<and> t < m + WEEK_NS)
        \<longleftrightarrow> (WEEK_NS * q \<le> t + 3 * DAY_NS \<and> t + 3 * DAY_NS < WEEK_NS * q + WEEK_NS)"
    unfolding m by auto
  also have "\<dots> \<longleftrightarrow> (t + 3 * DAY_NS) div WEEK_NS = q"
    by (rule div_bounds [OF WEEK_NS_pos])
  also have "\<dots> \<longleftrightarrow> week_start t = m"
    unfolding week_start_div [of t] m using WEEK_NS_pos by auto
  finally show ?thesis .
qed

lemma week_start_mono: "s \<le> t \<Longrightarrow> week_start s \<le> week_start t"
proof -
  assume "s \<le> t"
  then have "(s + 3 * DAY_NS) div WEEK_NS \<le> (t + 3 * DAY_NS) div WEEK_NS"
    using WEEK_NS_pos by (intro zdiv_mono1) auto
  then have "WEEK_NS * ((s + 3 * DAY_NS) div WEEK_NS) \<le> WEEK_NS * ((t + 3 * DAY_NS) div WEEK_NS)"
    using WEEK_NS_pos by (simp add: mult_left_mono)
  then show ?thesis by (simp add: week_start_div)
qed

lemma rollback_normalize: "rollback_monday (normalize_ts t) = week_start t"
proof -
  define d where "d = t div DAY_NS"
  have n: "normalize_ts t = DAY_NS * d"
    unfolding normalize_ts_def d_def by (simp add: minus_mod_eq_mult_div)
  have wd: "weekday (DAY_NS * d) = (d + 3) mod 7"
    using DAY_NS_pos by (simp add: weekday_def)
  have "(t + 3 * DAY_NS) div WEEK_NS = ((t + 3 * DAY_NS) div DAY_NS) div 7"
    unfolding WEEK_NS_def by (subst mult.commute) (simp add: zdiv_zmult2_eq)
  also have "(t + 3 * DAY_NS) div DAY_NS = d + 3"
    using DAY_NS_pos by (simp add: d_def)
  finally have q: "(t + 3 * DAY_NS) div WEEK_NS = (d + 3) div 7" .
  define Q where "Q = (d + 3) div 7"
  have "7 * ((d + 3) div 7) + (d + 3) mod 7 = d + 3" by simp
  then have "d - (d + 3) mod 7 = 7 * Q - 3" unfolding Q_def by linarith
  then have "DAY_NS * (d - (d + 3) mod 7) = DAY_NS * (7 * Q - 3)" by simp
  then have lhs: "rollback_monday (normalize_ts t) = DAY_NS * (7 * Q - 3)"
    by (simp add: rollback_monday_def n wd algebra_simps)
  have rhs: "week_start t = 7 * DAY_NS * Q - 3 * DAY_NS"
    by (simp only: week_start_div q Q_def) (simp add: WEEK_NS_def)
  show ?thesis
    unfolding lhs rhs by (simp add: algebra_simps)
qed

lemma week_start_le_normalize: "week_start t \<le> normalize_ts t"
proof -
  have "rollback_monday (normalize_ts t) \<le> normalize_ts t"
    using DAY_NS_pos by (simp add: rollback_monday_def weekday_def)
  then show ?thesis by (simp add: rollback_normalize)
qed

lemma week_start_shift: "week_start (m + k * WEEK_NS) = week_start m + k * WEEK_NS"
proof -
  have "m + k * WEEK_NS + 3 * DAY_NS = (m + 3 * DAY_NS) + k * WEEK_NS" by simp
  then have "(m + k * WEEK_NS + 3 * DAY_NS) mod WEEK_NS = (m + 3 * DAY_NS) mod WEEK_NS"
    by (simp only: mod_mult_self1)
  then show ?thesis by (simp add: week_start_def)
qed

subsection \<open>Bins and labels\<close>

lemma week_labels_alt:
  "week_labels t0 t1
   = map (\<lambda>k. week_start t0 + int k * WEEK_NS)
       [0..<nat ((normalize_ts t1 - week_start t0) div WEEK_NS) + 1]"
  by (simp add: week_labels_def rollback_normalize Let_def)

lemma week_labels_monday: "l \<in> set (week_labels t0 t1) \<Longrightarrow> week_start l = l"
  by (auto simp: week_labels_alt week_start_shift)

lemma week_labels_distinct: "distinct (week_labels t0 t1)"
  unfolding week_labels_alt using WEEK_NS_pos
  by (auto simp: distinct_map intro!: inj_onI)

lemma week_labels_cover:
  assumes "t0 \<le> t" and "t \<le> t1"
  shows "week_start t \<in> set (week_labels t0 t1)"
proof -
  define q0 where "q0 = (t0 + 3 * DAY_NS) div WEEK_NS"
  define q where "q = (t + 3 * DAY_NS) div WEEK_NS"
  have f: "week_start t0 = WEEK_NS * q0 - 3 * DAY_NS" and m: "week_start t = WEEK_NS * q - 3 * DAY_NS"
    by (simp_all add: week_start_div q0_def q_def)
  have q0q: "q0 \<le> q"
    unfolding q0_def q_def using assms(1) WEEK_NS_pos by (intro zdiv_mono1) auto
  have "week_start t \<le> week_start t1" using assms(2) by (rule week_start_mono)
  also have "\<dots> \<le> normalize_ts t1" by (rule week_start_le_normalize)
  finally have "WEEK_NS * (q - q0) \<le> normalize_ts t1 - week_start t0"
    unfolding f m by (simp add: algebra_simps)
  then have "(WEEK_NS * (q - q0)) div WEEK_NS \<le> (normalize_ts t1 - week_start t0) div WEEK_NS"
    using WEEK_NS_pos by (intro zdiv_mono1) auto
  then have "q - q0 \<le> (normalize_ts t1 - week_start t0) div WEEK_NS"
    using WEEK_NS_pos by simp
  with q0q have k: "nat (q - q0) < nat ((normalize_ts t1 - week_start t0) div WEEK_NS) + 1"
    by linarith
  have "week_start t = week_start t0 + int (nat (q - q0)) * WEEK_NS"
    using q0q unfolding f m by (simp add: algebra_simps)
  with k show ?thesis
    unfolding week_labels_alt by (auto intro!: image_eqI [where x = "nat (q - q0)"])
qed

lemma resample_bin_label: "resample_bin S l = Some a \<Longrightarrow> fst a = l"
  by (auto simp: resample_bin_def split: list.splits)

lemma ts_weekly_row [simp]: "ts (weekly_row symb f a) = fst a"
  by (cases a) (simp add: weekly_row_def)

lemma symbol_weekly_row [simp]: "symbol (weekly_row symb f a) = symb"
  by (auto simp: weekly_row_def split: prod.splits)

lemma map_filter_id_map: "List.map_filter (\<lambda>x. x) (map g xs) = List.map_filter g xs"
  by (induction xs) (auto split: option.splits)

lemma filter_ts_weekly:
  "filter (\<lambda>w. ts w = m) (map (weekly_row symb f) (List.map_filter (resample_bin S) L))
   = map (weekly_row symb f) (List.map_filter (resample_bin S) (filter (\<lambda>l. l = m) L))"
  by (induction L) (auto split: option.splits dest: resample_bin_label)

lemma filter_eq_distinct:
  "distinct xs \<Longrightarrow> filter (\<lambda>x. x = m) xs = (if m \<in> set xs then [m] else [])"
  by (induction xs) (auto simp: filter_empty_conv)

lemma sorted_hd_le: "sorted xs \<Longrightarrow> x \<in> set xs \<Longrightarrow> hd xs \<le> (x :: int)"
  by (cases xs) auto

lemma sorted_le_last: "sorted xs \<Longrightarrow> x \<in> set xs \<Longrightarrow> (x :: int) \<le> last xs"
  by (induction xs) auto

lemma resample_bin_monday:
  assumes "week_start m = m"
  shows "resample_bin S m
         = (case filter (\<lambda>r. week_start (ts r) = m) S of
              [] \<Rightarrow> None
            | r # rs \<Rightarrow>
                Some (m, open r, Max (high ` set (r # rs)), Min (low ` set (r # rs)),
                      close (last (r # rs)), sum_list (map volume (r # rs))))"
proof -
  have b: "filter (\<lambda>r. m \<le> ts r \<and> ts r < m + WEEK_NS) S = filter (\<lambda>r. week_start (ts r) = m) S"
    by (simp add: week_start_bin [OF assms])
  have mx: "fold max (map high rs) (high r) = Max (high ` set (r # rs))" for r :: row and rs
    using Max.set_eq_fold [of "high r" "map high rs"] by simp
  have mn: "fold min (map low rs) (low r) = Min (low ` set (r # rs))" for r :: row and rs
    using Min.set_eq_fold [of "low r" "map low rs"] by simp
  show ?thesis
    unfolding resample_bin_def b
    by (simp add: mx mn split: list.splits)
qed

lemma weekly_rows_of_symbol_bucket:
  assumes "sorted (map ts (sort_index_ts argsort (filter (\<lambda>r. symbol r = symb) df)))"
  shows "filter (\<lambda>w. ts w = m) (weekly_rows_of_symbol argsort df symb)
   = (case filter (\<lambda>r. week_start (ts r) = m) (sort_index_ts argsort (filter (\<lambda>r. symbol r = symb) df)) of
        [] \<Rightarrow> []
      | r # rs \<Rightarrow>
          [weekly_row symb (hd (sort_index_ts argsort (filter (\<lambda>r. symbol r = symb) df)))
             (m, open r, Max (high ` set (r # rs)), Min (low ` set (r # rs)),
              close (last (r # rs)), sum_list (map volume (r # rs)))])"
proof -
  let ?S = "sort_index_ts argsort (filter (\<lambda>r. symbol r = symb) df)"
  let ?C = "filter (\<lambda>r. week_start (ts r) = m) ?S"
  show ?thesis
  proof (cases ?S)
    case Nil
    then show ?thesis
      by (simp add: weekly_rows_of_symbol_def)
  next
    case (Cons f rest)
    let ?L = "week_labels (ts f) (ts (last ?S))"
    have rows: "weekly_rows_of_symbol argsort df symb
                = map (weekly_row symb f) (List.map_filter (resample_bin ?S) ?L)"
      by (simp add: weekly_rows_of_symbol_def Cons Let_def map_filter_id_map)
    have hd: "hd ?S = f" using Cons by simp
    have flt: "filter (\<lambda>w. ts w = m) (weekly_rows_of_symbol argsort df symb)
          = map (weekly_row symb f)
              (List.map_filter (resample_bin ?S) (if m \<in> set ?L then [m] else []))"
      unfolding rows filter_ts_weekly
      by (simp only: filter_eq_distinct [OF week_labels_distinct])
    show ?thesis
    proof (cases "m \<in> set ?L")
      case True
      then have "week_start m = m" by (rule week_labels_monday)
      from resample_bin_monday [OF this, of ?S] True show ?thesis
        unfolding flt hd by (simp add: List.map_filter_simps split: list.splits)
    next
      case False
      have "?C = []"
      proof (rule ccontr)
        assume "?C \<noteq> []"
        then obtain r where r: "r \<in> set ?S" "week_start (ts r) = m"
          by (auto simp: filter_empty_conv)
        from r(1) have mem: "ts r \<in> set (map ts ?S)" unfolding set_map by (rule imageI)
        have ne: "?S \<noteq> []" using Cons by simp
        have "hd (map ts ?S) \<le> ts r" using assms mem by (rule sorted_hd_le)
        then have lo: "ts f \<le> ts r" using ne hd by (simp add: hd_map)
        have "ts r \<le> last (map ts ?S)" using assms mem by (rule sorted_le_last)
        then have hi: "ts r \<le> ts (last ?S)" using ne by (simp add: last_map)
        from week_labels_cover [OF lo hi] r(2) False show False by simp
      qed
      with False show ?thesis
        unfolding flt by (simp add: List.map_filter_simps)
    qed
  qed
qed

lemma weekly_rows_of_symbol_props:
  "w \<in> set (weekly_rows_of_symbol argsort df symb) \<Longrightarrow> symbol w = symb \<and> week_start (ts w) = ts w"
proof -
  assume w: "w \<in> set (weekly_rows_of_symbol argsort df symb)"
  let ?S = "sort_index_ts argsort (filter (\<lambda>r. symbol r = symb) df)"
  from w obtain f rest where S: "?S = f # rest"
    by (cases ?S) (auto simp: weekly_rows_of_symbol_def)
  let ?L = "week_labels (ts f) (ts (last ?S))"
  from w have "w \<in> set (map (weekly_row symb f) (List.map_filter (resample_bin ?S) ?L))"
    by (simp add: weekly_rows_of_symbol_def S Let_def map_filter_id_map split: if_splits)
  then obtain a l where "w = weekly_row symb f a" "l \<in> set ?L" "resample_bin ?S l = Some a"
    by (auto simp: List.map_filter_def)
  then show ?thesis
    using week_labels_monday [of l] resample_bin_label [of ?S l a] by simp
qed

lemma concat_single_key:
  assumes "distinct xs" and "\<And>x. x \<noteq> k \<Longrightarrow> g x = []"
  shows "concat (map g xs) = (if k \<in> set xs then g k else [])"
  using assms(1)
proof (induction xs)
  case Nil
  show ?case by simp
next
  case (Cons x xs)
  then show ?case
    using assms(2) [of x] by (cases "x = k") auto
qed

lemma sort_index_absent:
  "symb \<notin> set (map symbol df) \<Longrightarrow> sort_index_ts argsort (filter (\<lambda>r. symbol r = symb) df) = []"
proof -
  assume "symb \<notin> set (map symbol df)"
  then have "filter (\<lambda>r. symbol r = symb) df = []"
    by (auto simp: filter_empty_conv)
  then show ?thesis by (simp add: sort_index_ts_def)
qed

lemma to_weekly_bucket_rows:
  assumes "\<forall>s \<in> set (map symbol df). sorted (map ts (sort_index_ts argsort (filter (\<lambda>r. symbol r = s) df)))"
  shows "(\<forall>symb m.
      filter (\<lambda>w. symbol w = symb \<and> ts w = m) (to_weekly argsort df)
      = (case filter (\<lambda>r. week_start (ts r) = m) (sort_index_ts argsort (filter (\<lambda>r. symbol r = symb) df)) of
           [] \<Rightarrow> []
         | r # rs \<Rightarrow>
             [\<lparr>symbol = symb, timeframe = ''1w'', ts = m,
               open = open r,
               high = Max (high ` set (r # rs)),
               low = Min (low ` set (r # rs)),
               close = close (last (r # rs)),
               volume = sum_list (map volume (r # rs)),
               source = source (hd (sort_index_ts argsort (filter (\<lambda>r. symbol r = symb) df))),
               currency = currency (hd (sort_index_ts argsort (filter (\<lambda>r. symbol r = symb) df))),
               adjustment = adjustment (hd (sort_index_ts argsort (filter (\<lambda>r. symbol r = symb) df)))\<rparr>]))
   \<and> (\<forall>w \<in> set (to_weekly argsort df). week_start (ts w) = ts w)"
proof -
  let ?parts = "concat (map (weekly_rows_of_symbol argsort df) (unique (map symbol df)))"
  have srt: "sorted (map ts (sort_index_ts argsort (filter (\<lambda>r. symbol r = symb) df)))" for symb
    using assms sort_index_absent [of symb df argsort] by (cases "symb \<in> set (map symbol df)") auto
  have tw: "to_weekly argsort df = sort_key (\<lambda>r. (symbol r, ts r)) ?parts"
    by (simp add: to_weekly_def Let_def)
  have bucket: "filter (\<lambda>w. symbol w = symb \<and> ts w = m) (to_weekly argsort df)
      = filter (\<lambda>w. ts w = m) (weekly_rows_of_symbol argsort df symb)" for symb m
  proof -
    have other: "filter (\<lambda>w. symbol w = symb \<and> ts w = m) (weekly_rows_of_symbol argsort df s) = []"
      if "s \<noteq> symb" for s
      using that weekly_rows_of_symbol_props [of _ argsort df s] by (auto simp: filter_empty_conv)
    have same: "filter (\<lambda>w. symbol w = symb \<and> ts w = m) (weekly_rows_of_symbol argsort df symb)
          = filter (\<lambda>w. ts w = m) (weekly_rows_of_symbol argsort df symb)"
      using weekly_rows_of_symbol_props [of _ argsort df symb] by (intro filter_cong) auto
    have absent: "weekly_rows_of_symbol argsort df symb = []" if "symb \<notin> set (map symbol df)"
      using sort_index_absent [OF that, of argsort] by (simp add: weekly_rows_of_symbol_def)
    have "filter (\<lambda>w. symbol w = symb \<and> ts w = m) ?parts
          = concat (map (\<lambda>s. filter (\<lambda>w. symbol w = symb \<and> ts w = m) (weekly_rows_of_symbol argsort df s))
                      (unique (map symbol df)))"
      by (simp add: filter_concat o_def)
    also have "\<dots> = (if symb \<in> set (unique (map symbol df))
                      then filter (\<lambda>w. symbol w = symb \<and> ts w = m) (weekly_rows_of_symbol argsort df symb)
                      else [])"
      by (rule concat_single_key) (simp_all add: other)
    also have "\<dots> = filter (\<lambda>w. ts w = m) (weekly_rows_of_symbol argsort df symb)"
      using same absent by auto
    finally have p: "filter (\<lambda>w. symbol w = symb \<and> ts w = m) ?parts
          = filter (\<lambda>w. ts w = m) (weekly_rows_of_symbol argsort df symb)" .
    have le1: "length (filter (\<lambda>w. ts w = m) (weekly_rows_of_symbol argsort df symb)) \<le> 1"
      by (simp add: weekly_rows_of_symbol_bucket [OF srt] split: list.splits)
    have "filter (\<lambda>w. symbol w = symb \<and> ts w = m) (to_weekly argsort df)
          = sort_key (\<lambda>r. (symbol r, ts r)) (filter (\<lambda>w. ts w = m) (weekly_rows_of_symbol argsort df symb))"
      unfolding tw by (simp only: filter_sort p)
    also have "\<dots> = filter (\<lambda>w. ts w = m) (weekly_rows_of_symbol argsort df symb)"
      using le1 by (cases "filter (\<lambda>w. ts w = m) (weekly_rows_of_symbol argsort df symb)") auto
    finally show ?thesis .
  qed
  have monday: "week_start (ts w) = ts w" if "w \<in> set (to_weekly argsort df)" for w
    using that weekly_rows_of_symbol_props unfolding tw by auto
  show ?thesis
    using monday
    by (auto simp: bucket weekly_rows_of_symbol_bucket [OF srt] weekly_row_def split: list.splits)
qed

lemma map_fst_map_filter:
  assumes "\<And>l a. g l = Some a \<Longrightarrow> fst a = l"
  shows "map fst (List.map_filter g L) = filter (\<lambda>l. g l \<noteq> None) L"
proof (induction L)
  case Nil
  show ?case by (simp add: List.map_filter_simps)
next
  case (Cons l L)
  then show ?case
    using assms [of l] by (cases "g l") (auto simp: List.map_filter_simps)
qed

lemma weekly_rows_ts_distinct: "distinct (map ts (weekly_rows_of_symbol argsort df symb))"
proof (cases "sort_index_ts argsort (filter (\<lambda>r. symbol r = symb) df)")
  case Nil
  then show ?thesis by (simp add: weekly_rows_of_symbol_def)
next
  case (Cons f rest)
  let ?S = "sort_index_ts argsort (filter (\<lambda>r. symbol r = symb) df)"
  let ?L = "week_labels (ts f) (ts (last ?S))"
  have "map ts (map (weekly_row symb f) (List.map_filter (resample_bin ?S) ?L))
        = map fst (List.map_filter (resample_bin ?S) ?L)"
    by (simp add: o_def)
  also have "\<dots> = filter (\<lambda>l. resample_bin ?S l \<noteq> None) ?L"
    by (rule map_fst_map_filter) (rule resample_bin_label)
  finally have "distinct (map ts (map (weekly_row symb f) (List.map_filter (resample_bin ?S) ?L)))"
    using week_labels_distinct by simp
  then show ?thesis
    by (simp add: weekly_rows_of_symbol_def Cons Let_def map_filter_id_map)
qed

lemma distinct_tagged_concat:
  assumes "distinct xs"
    and "\<And>x. x \<in> set xs \<Longrightarrow> distinct (map k (g x))"
    and "\<And>x w. w \<in> set (g x) \<Longrightarrow> tag w = x"
  shows "distinct (map (\<lambda>w. (tag w, k w)) (concat (map g xs)))"
  using assms(1,2)
proof (induction xs)
  case Nil
  show ?case by simp
next
  case (Cons x xs)
  have a: "distinct (map (\<lambda>w. (tag w, k w)) (g x))"
  proof -
    have "distinct (map k (g x))" using Cons.prems(2) by simp
    then have "inj_on k (set (g x))" and "distinct (g x)"
      by (simp_all add: distinct_map)
    then have "inj_on (\<lambda>w. (tag w, k w)) (set (g x))"
      by (auto simp: inj_on_def)
    with \<open>distinct (g x)\<close> show ?thesis by (simp add: distinct_map)
  qed
  have b: "distinct (map (\<lambda>w. (tag w, k w)) (concat (map g xs)))"
    using Cons by simp
  have c: "(tag w, k w) \<noteq> (tag v, k v)" if "w \<in> set (g x)" "v \<in> set (g y)" "y \<in> set xs" for w v y
    using that assms(3) [of w x] assms(3) [of v y] Cons.prems(1) by auto
  show ?case
    using a b c by (auto simp: image_iff)
qed

text \<open>No two rows of the weekly parts have the same symbol and timestamp.\<close>

lemma weekly_keys_distinct:
  "distinct (map (\<lambda>r. (symbol r, ts r))
     (concat (map (weekly_rows_of_symbol argsort df) (unique (map symbol df)))))"
  by (rule distinct_tagged_concat)
     (simp_all add: weekly_rows_ts_distinct weekly_rows_of_symbol_props)

subsection \<open>One row per symbol and week\<close>

lemma sorted_index_frame:
  assumes "is_argsort (argsort (map ts frame)) (map ts frame)"
  shows "mset (sort_index_ts argsort frame) = mset frame"
    and "sorted (map ts (sort_index_ts argsort frame))"
proof -
  show "mset (sort_index_ts argsort frame) = mset frame"
    unfolding sort_index_ts_def using assms by (rule take_rows_argsort(2)) simp
  show "sorted (map ts (sort_index_ts argsort frame))"
    unfolding sort_index_ts_def using assms by (rule sorted_take_rows)
qed

lemma filter_same_key:
  "distinct (map f xs) \<Longrightarrow> k \<in> set xs \<Longrightarrow> filter (\<lambda>x. f k = f x) xs = [k]"
proof (induction xs)
  case Nil
  then show ?case by simp
next
  case (Cons x xs)
  show ?case
  proof (cases "k = x")
    case True
    have "filter (\<lambda>y. f x = f y) xs = []"
      using Cons.prems(1) by (auto simp: filter_empty_conv)
    with True show ?thesis by simp
  next
    case False
    with Cons.prems(2) have k: "k \<in> set xs" by simp
    from Cons.prems(1) have "f x \<notin> f ` set xs" by simp
    with k have "f k \<noteq> f x" by (metis imageI)
    with k Cons show ?thesis by simp
  qed
qed

lemma sorted_perm_distinct:
  assumes "mset ys = mset xs" and "sorted (map f ys)" and "distinct (map f xs)"
  shows "ys = sort_key f xs"
proof -
  have "mset (map f ys) = mset (map f xs)"
    using assms(1) by simp
  then have d: "distinct (map f ys)"
    using assms(3) by (metis mset_eq_imp_distinct_iff)
  have s: "set ys = set xs"
    using assms(1) by (rule mset_eq_setD)
  have "filter (\<lambda>x. f k = f x) ys = filter (\<lambda>x. f k = f x) xs" if "k \<in> set ys" for k
    using that d assms(3) s by (simp add: filter_same_key)
  with assms(1) have "sort_key f xs = ys"
    using assms(2) by (intro properties_for_sort_key) auto
  then show ?thesis by simp
qed

lemma sum_list_mset:
  fixes f :: "'a \<Rightarrow> 'b :: comm_monoid_add"
  assumes "mset xs = mset ys"
  shows "sum_list (map f xs) = sum_list (map f ys)"
proof -
  have "sum_mset (mset (map f xs)) = sum_mset (mset (map f ys))"
    using assms by simp
  then show ?thesis
    by (simp only: sum_mset_sum_list)
qed

lemma stb_add_right:
  "signed_take_bit n (a + signed_take_bit n b) = signed_take_bit n (a + b)" for a b :: int
proof -
  have "signed_take_bit n (a + signed_take_bit n b)
        = signed_take_bit n (signed_take_bit n a + signed_take_bit n (signed_take_bit n b))"
    by (simp only: signed_take_bit_add)
  also have "\<dots> = signed_take_bit n (signed_take_bit n a + signed_take_bit n b)"
    by simp
  also have "\<dots> = signed_take_bit n (a + b)"
    by (simp only: signed_take_bit_add)
  finally show ?thesis .
qed

lemma sint_sum_list:
  "sint (sum_list ws :: 64 word) = signed_take_bit 63 (sum_list (map sint ws))"
proof (induction ws)
  case Nil
  show ?case by simp
next
  case (Cons w ws)
  have "sint (w + sum_list ws) = signed_take_bit 63 (sint w + sint (sum_list ws))"
    by (simp add: sint_word_ariths)
  also have "\<dots> = signed_take_bit 63 (sint w + sum_list (map sint ws))"
    unfolding Cons.IH by (rule stb_add_right)
  finally show ?case by simp
qed

lemma week_of_symbol:
  assumes "\<forall>s \<in> set (map symbol df).
             is_argsort (argsort (map ts (filter (\<lambda>r. symbol r = s) df)))
               (map ts (filter (\<lambda>r. symbol r = s) df))"
  shows "mset (sort_index_ts argsort (filter (\<lambda>r. symbol r = symb) df))
         = mset (filter (\<lambda>r. symbol r = symb) df)"
    and "sorted (map ts (sort_index_ts argsort (filter (\<lambda>r. symbol r = symb) df)))"
    and "mset (filter (\<lambda>r. week_start (ts r) = m)
                 (sort_index_ts argsort (filter (\<lambda>r. symbol r = symb) df)))
         = mset (filter (\<lambda>r. symbol r = symb \<and> week_start (ts r) = m) df)"
    and "sorted (map ts (filter (\<lambda>r. week_start (ts r) = m)
                 (sort_index_ts argsort (filter (\<lambda>r. symbol r = symb) df))))"
proof -
  let ?F = "filter (\<lambda>r. symbol r = symb) df"
  let ?S = "sort_index_ts argsort ?F"
  show p: "mset ?S = mset ?F"
  proof (cases "symb \<in> set (map symbol df)")
    case True
    with assms show ?thesis by (intro sorted_index_frame(1)) auto
  next
    case False
    then have "?F = []" by (auto simp: filter_empty_conv)
    then show ?thesis by (simp add: sort_index_ts_def)
  qed
  show s: "sorted (map ts ?S)"
  proof (cases "symb \<in> set (map symbol df)")
    case True
    with assms show ?thesis by (intro sorted_index_frame(2)) auto
  next
    case False
    then have "?F = []" by (auto simp: filter_empty_conv)
    then show ?thesis by (simp add: sort_index_ts_def)
  qed
  have l: "filter (\<lambda>r. week_start (ts r) = m) ?F
           = filter (\<lambda>r. symbol r = symb \<and> week_start (ts r) = m) df"
    by simp
  have "mset (filter (\<lambda>r. week_start (ts r) = m) ?S) = mset (filter (\<lambda>r. week_start (ts r) = m) ?F)"
    by (simp only: mset_filter p)
  then show "mset (filter (\<lambda>r. week_start (ts r) = m) ?S)
         = mset (filter (\<lambda>r. symbol r = symb \<and> week_start (ts r) = m) df)"
    by (simp only: l)
  show "sorted (map ts (filter (\<lambda>r. week_start (ts r) = m) ?S))"
    using s by (rule sorted_filter)
qed

lemma to_weekly_bucket:
  assumes "\<forall>s \<in> set (map symbol df).
             is_argsort (argsort (map ts (filter (\<lambda>r. symbol r = s) df)))
               (map ts (filter (\<lambda>r. symbol r = s) df))"
  shows "filter (\<lambda>w. symbol w = symb \<and> ts w = m) (to_weekly argsort df)
           = (if filter (\<lambda>r. symbol r = symb \<and> week_start (ts r) = m) df = [] then []
              else [\<lparr>symbol = symb, timeframe = ''1w'', ts = m,
                     open = open (hd (filter (\<lambda>r. week_start (ts r) = m)
                                        (sort_index_ts argsort (filter (\<lambda>r. symbol r = symb) df)))),
                     high = Max (high ` set (filter (\<lambda>r. symbol r = symb \<and> week_start (ts r) = m) df)),
                     low = Min (low ` set (filter (\<lambda>r. symbol r = symb \<and> week_start (ts r) = m) df)),
                     close = close (last (filter (\<lambda>r. week_start (ts r) = m)
                                        (sort_index_ts argsort (filter (\<lambda>r. symbol r = symb) df)))),
                     volume = sum_list (map volume (filter (\<lambda>r. symbol r = symb \<and> week_start (ts r) = m) df)),
                     source = source (hd (sort_index_ts argsort (filter (\<lambda>r. symbol r = symb) df))),
                     currency = currency (hd (sort_index_ts argsort (filter (\<lambda>r. symbol r = symb) df))),
                     adjustment = adjustment (hd (sort_index_ts argsort (filter (\<lambda>r. symbol r = symb) df)))\<rparr>])"
proof -
  have srt: "\<forall>s \<in> set (map symbol df). sorted (map ts (sort_index_ts argsort (filter (\<lambda>r. symbol r = s) df)))"
    using week_of_symbol(2) [OF assms] by blast
  note rows = to_weekly_bucket_rows [OF srt, THEN conjunct1, rule_format]
  let ?S = "sort_index_ts argsort (filter (\<lambda>r. symbol r = symb) df)"
  let ?C = "filter (\<lambda>r. week_start (ts r) = m) ?S"
  let ?T = "filter (\<lambda>r. symbol r = symb \<and> week_start (ts r) = m) df"
  note p = week_of_symbol(3) [OF assms, of m symb]
  have st: "set ?C = set ?T" using p by (rule mset_eq_setD)
  have sm: "sum_list (map volume ?C) = sum_list (map volume ?T)" using p by (rule sum_list_mset)
  have "(set ?C = {}) = (set ?T = {})" using st by simp
  then have em: "?C = [] \<longleftrightarrow> ?T = []" by (simp only: set_empty)
  show ?thesis
  proof (cases ?C)
    case Nil
    with em show ?thesis
      unfolding rows [of symb m] by simp
  next
    case (Cons r rs)
    with em have ne: "?T \<noteq> []" by simp
    have h: "hd ?C = r" "last ?C = last (r # rs)" "set (r # rs) = set ?T"
      "sum_list (map volume (r # rs)) = sum_list (map volume ?T)"
      using Cons st sm by simp_all
    have "filter (\<lambda>w. symbol w = symb \<and> ts w = m) (to_weekly argsort df)
          = [\<lparr>symbol = symb, timeframe = ''1w'', ts = m,
             open = open r,
             high = Max (high ` set (r # rs)),
             low = Min (low ` set (r # rs)),
             close = close (last (r # rs)),
             volume = sum_list (map volume (r # rs)),
             source = source (hd ?S), currency = currency (hd ?S), adjustment = adjustment (hd ?S)\<rparr>]"
      unfolding rows [of symb m] Cons by simp
    also have "\<dots> = [\<lparr>symbol = symb, timeframe = ''1w'', ts = m,
             open = open (hd ?C),
             high = Max (high ` set ?T),
             low = Min (low ` set ?T),
             close = close (last ?C),
             volume = sum_list (map volume ?T),
             source = source (hd ?S), currency = currency (hd ?S), adjustment = adjustment (hd ?S)\<rparr>]"
      by (simp only: h)
    finally show ?thesis
      by (simp only: if_not_P [OF ne])
  qed
qed

lemma weekly_volume:
  assumes "\<forall>s \<in> set (map symbol df).
             is_argsort (argsort (map ts (filter (\<lambda>r. symbol r = s) df)))
               (map ts (filter (\<lambda>r. symbol r = s) df))"
    and w: "w \<in> set (to_weekly argsort df)"
  shows "sint (volume w)
         = signed_take_bit 63
             (\<Sum>r\<leftarrow>filter (\<lambda>r. symbol r = symbol w \<and> week_start (ts r) = ts w) df. sint (volume r))"
proof -
  let ?T = "filter (\<lambda>r. symbol r = symbol w \<and> week_start (ts r) = ts w) df"
  note bucket = to_weekly_bucket [OF assms(1), of "symbol w" "ts w"]
  from w have m: "w \<in> set (filter (\<lambda>x. symbol x = symbol w \<and> ts x = ts w) (to_weekly argsort df))"
    by simp
  have ne: "?T \<noteq> []"
  proof
    assume "?T = []"
    with bucket have "filter (\<lambda>x. symbol x = symbol w \<and> ts x = ts w) (to_weekly argsort df) = []"
      by (simp only: if_P)
    with m show False by simp
  qed
  from bucket obtain x where
    x: "filter (\<lambda>x. symbol x = symbol w \<and> ts x = ts w) (to_weekly argsort df) = [x]"
    and v: "volume x = sum_list (map volume ?T)"
    by (simp only: if_not_P [OF ne]) simp
  from m x have "w = x" by simp
  with v have "volume w = sum_list (map volume ?T)" by simp
  then have "sint (volume w) = signed_take_bit 63 (sum_list (map sint (map volume ?T)))"
    by (simp only: sint_sum_list)
  then show ?thesis
    by (simp add: o_def)
qed

text \<open>
  C3 (as amended).  For every daily table, every symbol and every instant \<open>m\<close>, whatever
  order the sort gives to rows with the same timestamp: the rows of \<open>to_weekly\<close> with that
  symbol and timestamp \<open>m\<close> are, when some daily row of the symbol falls in the week that
  starts at \<open>m\<close> (a Monday 00:00:00 UTC, the week running up to the next Monday, which it
  excludes), exactly one row, and no row at all when none falls there.  That row has open
  the open of the first of the week's rows in time and close the close of the last, high
  their greatest high, low their least low, and the metadata of the first row of the
  symbol's sorted frame.  The week's rows in time are the contributing rows in ascending
  timestamps; when their timestamps differ that is one order, the same for every sorting
  algorithm.  The volume is the sum of the daily volumes in the column's 64-bit arithmetic,
  that is, the integer sum wrapped to 64 bits.  Every output timestamp is a Monday
  00:00:00 UTC.
\<close>

theorem to_weekly_one_row_per_week:
  assumes "\<forall>s \<in> set (map symbol df).
             is_argsort (argsort (map ts (filter (\<lambda>r. symbol r = s) df)))
               (map ts (filter (\<lambda>r. symbol r = s) df))"
  shows "(\<forall>symb m.
      let contributing = filter (\<lambda>r. symbol r = symb \<and> week_start (ts r) = m) df;
          sorted_rows = sort_index_ts argsort (filter (\<lambda>r. symbol r = symb) df);
          in_time = filter (\<lambda>r. week_start (ts r) = m) sorted_rows
      in mset in_time = mset contributing
       \<and> sorted (map ts in_time)
       \<and> (distinct (map ts contributing) \<longrightarrow> in_time = sort_key ts contributing)
       \<and> filter (\<lambda>w. symbol w = symb \<and> ts w = m) (to_weekly argsort df)
         = (if contributing = [] then []
            else [\<lparr>symbol = symb, timeframe = ''1w'', ts = m,
                   open = open (hd in_time),
                   high = Max (high ` set contributing),
                   low = Min (low ` set contributing),
                   close = close (last in_time),
                   volume = sum_list (map volume contributing),
                   source = source (hd sorted_rows),
                   currency = currency (hd sorted_rows),
                   adjustment = adjustment (hd sorted_rows)\<rparr>]))
   \<and> (\<forall>w \<in> set (to_weekly argsort df). week_start (ts w) = ts w)
   \<and> (\<forall>w \<in> set (to_weekly argsort df).
         sint (volume w)
         = signed_take_bit 63
             (\<Sum>r\<leftarrow>filter (\<lambda>r. symbol r = symbol w \<and> week_start (ts r) = ts w) df. sint (volume r)))"
proof -
  have srt: "\<forall>s \<in> set (map symbol df). sorted (map ts (sort_index_ts argsort (filter (\<lambda>r. symbol r = s) df)))"
    using week_of_symbol(2) [OF assms] by blast
  note monday = to_weekly_bucket_rows [OF srt, THEN conjunct2]
  note bucket = to_weekly_bucket [OF assms]
  note vol = weekly_volume [OF assms]
  have perm: "in_time = sort_key ts contributing"
    if "mset in_time = mset contributing" "sorted (map ts in_time)" "distinct (map ts contributing)"
    for in_time contributing :: "row list"
    using that by (rule sorted_perm_distinct)
  show ?thesis
    unfolding Let_def
  proof (intro conjI allI impI ballI)
    fix symb m
    show "mset (filter (\<lambda>r. week_start (ts r) = m)
                 (sort_index_ts argsort (filter (\<lambda>r. symbol r = symb) df)))
          = mset (filter (\<lambda>r. symbol r = symb \<and> week_start (ts r) = m) df)"
      by (rule week_of_symbol(3) [OF assms])
    show "sorted (map ts (filter (\<lambda>r. week_start (ts r) = m)
                 (sort_index_ts argsort (filter (\<lambda>r. symbol r = symb) df))))"
      by (rule week_of_symbol(4) [OF assms])
    show "filter (\<lambda>r. week_start (ts r) = m)
                 (sort_index_ts argsort (filter (\<lambda>r. symbol r = symb) df))
          = sort_key ts (filter (\<lambda>r. symbol r = symb \<and> week_start (ts r) = m) df)"
      if "distinct (map ts (filter (\<lambda>r. symbol r = symb \<and> week_start (ts r) = m) df))"
      using week_of_symbol(3) [OF assms] week_of_symbol(4) [OF assms] that by (rule perm)
    show "filter (\<lambda>w. symbol w = symb \<and> ts w = m) (to_weekly argsort df)
         = (if filter (\<lambda>r. symbol r = symb \<and> week_start (ts r) = m) df = [] then []
            else [\<lparr>symbol = symb, timeframe = ''1w'', ts = m,
                   open = open (hd (filter (\<lambda>r. week_start (ts r) = m)
                                      (sort_index_ts argsort (filter (\<lambda>r. symbol r = symb) df)))),
                   high = Max (high ` set (filter (\<lambda>r. symbol r = symb \<and> week_start (ts r) = m) df)),
                   low = Min (low ` set (filter (\<lambda>r. symbol r = symb \<and> week_start (ts r) = m) df)),
                   close = close (last (filter (\<lambda>r. week_start (ts r) = m)
                                      (sort_index_ts argsort (filter (\<lambda>r. symbol r = symb) df)))),
                   volume = sum_list (map volume (filter (\<lambda>r. symbol r = symb \<and> week_start (ts r) = m) df)),
                   source = source (hd (sort_index_ts argsort (filter (\<lambda>r. symbol r = symb) df))),
                   currency = currency (hd (sort_index_ts argsort (filter (\<lambda>r. symbol r = symb) df))),
                   adjustment = adjustment (hd (sort_index_ts argsort (filter (\<lambda>r. symbol r = symb) df)))\<rparr>])"
      by (rule bucket)
  next
    fix w assume "w \<in> set (to_weekly argsort df)"
    then show "week_start (ts w) = ts w" using monday by blast
  next
    fix w assume "w \<in> set (to_weekly argsort df)"
    then show "sint (volume w)
         = signed_take_bit 63
             (\<Sum>r\<leftarrow>filter (\<lambda>r. symbol r = symbol w \<and> week_start (ts r) = ts w) df. sint (volume r))"
      by (rule vol)
  qed
qed

text \<open>
  Daily bars of two symbols over the weeks of Monday 2024-01-01 and the following Mondays:
  MSFT on the Monday and on the Sunday of the first week gives one row for that week; AAPL
  has no bar in the week of 2024-01-15 and no row for it.
\<close>

theorem to_weekly_one_row_per_week_witness:
  "filter (\<lambda>w. symbol w = ''MSFT'' \<and> ts w = 1704067200000000000) (to_weekly stable_argsort two_weeks)
     = [\<lparr>symbol = ''MSFT'', timeframe = ''1w'', ts = 1704067200000000000, open = 30, high = 35,
         low = 29, close = 34, volume = 30, source = ''alpaca'', currency = ''USD'',
         adjustment = ''raw''\<rparr>]
   \<and> filter (\<lambda>w. symbol w = ''AAPL'' \<and> ts w = 1705276800000000000) (to_weekly stable_argsort two_weeks) = []
   \<and> week_start (ts (hd (to_weekly stable_argsort two_weeks))) = ts (hd (to_weekly stable_argsort two_weeks))
   \<and> sint (volume (hd (to_weekly stable_argsort two_weeks))) = 300"
proof -
  have h: "\<forall>s \<in> set (map symbol two_weeks).
             is_argsort (stable_argsort (map ts (filter (\<lambda>r. symbol r = s) two_weeks)))
               (map ts (filter (\<lambda>r. symbol r = s) two_weeks))"
    by code_simp
  have a: "(if filter (\<lambda>r. symbol r = ''MSFT'' \<and> week_start (ts r) = 1704067200000000000) two_weeks = [] then []
            else [\<lparr>symbol = ''MSFT'', timeframe = ''1w'', ts = 1704067200000000000,
                   open = open (hd (filter (\<lambda>r. week_start (ts r) = 1704067200000000000)
                                      (sort_index_ts stable_argsort (filter (\<lambda>r. symbol r = ''MSFT'') two_weeks)))),
                   high = Max (high ` set (filter (\<lambda>r. symbol r = ''MSFT'' \<and> week_start (ts r) = 1704067200000000000) two_weeks)),
                   low = Min (low ` set (filter (\<lambda>r. symbol r = ''MSFT'' \<and> week_start (ts r) = 1704067200000000000) two_weeks)),
                   close = close (last (filter (\<lambda>r. week_start (ts r) = 1704067200000000000)
                                      (sort_index_ts stable_argsort (filter (\<lambda>r. symbol r = ''MSFT'') two_weeks)))),
                   volume = sum_list (map volume (filter (\<lambda>r. symbol r = ''MSFT'' \<and> week_start (ts r) = 1704067200000000000) two_weeks)),
                   source = source (hd (sort_index_ts stable_argsort (filter (\<lambda>r. symbol r = ''MSFT'') two_weeks))),
                   currency = currency (hd (sort_index_ts stable_argsort (filter (\<lambda>r. symbol r = ''MSFT'') two_weeks))),
                   adjustment = adjustment (hd (sort_index_ts stable_argsort (filter (\<lambda>r. symbol r = ''MSFT'') two_weeks)))\<rparr>])
     = [\<lparr>symbol = ''MSFT'', timeframe = ''1w'', ts = 1704067200000000000, open = 30, high = 35,
         low = 29, close = 34, volume = 30, source = ''alpaca'', currency = ''USD'',
         adjustment = ''raw''\<rparr>]"
    by code_simp
  have b: "filter (\<lambda>r. symbol r = ''AAPL'' \<and> week_start (ts r) = 1705276800000000000) two_weeks = []"
    by code_simp
  have c: "to_weekly stable_argsort two_weeks \<noteq> []"
    by code_simp
  note th = to_weekly_one_row_per_week [OF h, unfolded Let_def]
  note msft = th [THEN conjunct1, THEN spec [of _ "''MSFT''"], THEN spec [of _ 1704067200000000000],
      THEN conjunct2, THEN conjunct2, THEN conjunct2]
  note aapl = th [THEN conjunct1, THEN spec [of _ "''AAPL''"], THEN spec [of _ 1705276800000000000],
      THEN conjunct2, THEN conjunct2, THEN conjunct2]
  note mon = th [THEN conjunct2, THEN conjunct1, THEN bspec, OF hd_in_set [OF c]]
  have d: "signed_take_bit 63 (\<Sum>r\<leftarrow>filter (\<lambda>r. symbol r = symbol (hd (to_weekly stable_argsort two_weeks))
                           \<and> week_start (ts r) = ts (hd (to_weekly stable_argsort two_weeks))) two_weeks.
              sint (volume r)) = (300 :: int)"
    by code_simp
  note vol = th [THEN conjunct2, THEN conjunct2, THEN bspec, OF hd_in_set [OF c], unfolded d]
  show ?thesis
    using trans [OF msft a] aapl mon vol by (simp add: b)
qed

text \<open>
  C3 as stated has the weekly volume be the sum of the daily volumes.  Two daily bars of
  one week with the volume \<open>2 ** 62\<close> each give one weekly bar whose volume is
  \<open>- 2 ** 63\<close>, where the sum of the daily volumes is \<open>2 ** 63\<close>.
\<close>

theorem weekly_volume_wraps_counterexample:
  "map (\<lambda>w. sint (volume w)) (to_weekly stable_argsort heavy_week) = [- 9223372036854775808]
   \<and> map (\<lambda>w. sint (volume w)) (to_weekly reversing_argsort heavy_week) = [- 9223372036854775808]
   \<and> sum_list (map (\<lambda>r. sint (volume r)) heavy_week) = 9223372036854775808"
  by code_simp

text \<open>
  Where two daily rows of a week have the same timestamp, the order the sort gives them
  decides which is the first and which the last: the weekly open and close are 4 and 15
  under the stable sort, 15 and 4 under the sort that reverses ties.
\<close>

lemma tie_order_decides_open:
  "map (\<lambda>w. (open w, close w)) (to_weekly stable_argsort tied_week) = [(4, 15)]
   \<and> map (\<lambda>w. (open w, close w)) (to_weekly reversing_argsort tied_week) = [(15, 4)]"
  by code_simp

end
